theory Spec2Isabelle
  imports Complex_Main "HOL-Library.AList"
begin

section \<open>Data model of \<^verbatim>\<open>Python/utils/async_task_manager.py\<close>\<close>

text \<open>
  The three enumerations of the module. \<open>priority_value\<close> is the \<^verbatim>\<open>.value\<close> of a
  \<^verbatim>\<open>TaskPriority\<close> member, the key the pending queue is sorted by.
\<close>

datatype TaskPriority = LOW | MEDIUM | HIGH | CRITICAL

fun priority_value :: "TaskPriority \<Rightarrow> int" where
  "priority_value LOW = 1"
| "priority_value MEDIUM = 2"
| "priority_value HIGH = 3"
| "priority_value CRITICAL = 4"

datatype TaskStatus = PENDING | RUNNING | COMPLETED | FAILED | CANCELLED

datatype GroupFailurePolicy = CONTINUE_ON_FAILURE | FAIL_FAST

text \<open>
  Exceptions are values. \<open>CancelledError\<close> is kept apart (see \<open>outcome\<close>): since
  Python 3.8 it derives from \<^verbatim>\<open>BaseException\<close>, so \<^verbatim>\<open>except Exception\<close> does not
  catch it and the wrapper has a handler of its own for it.

  \<open>UserError n\<close> and \<open>FalsyError n\<close> are instances of exception classes defined by the
  user of the manager. An object is false in a Boolean context when its class defines
  \<^verbatim>\<open>__bool__\<close> or \<^verbatim>\<open>__len__\<close> so; \<^verbatim>\<open>BaseException\<close> defines neither, so the built-in
  exceptions are true, and \<open>FalsyError\<close> stands for a user class whose instances are
  false. \<open>truth_value\<close> is \<^verbatim>\<open>bool(e)\<close>.
\<close>

datatype py_exception =
    RuntimeError string
  | TimeoutError string
  | ValueError string
  | TypeError string
  | ZeroDivisionError
  | UserError nat
  | FalsyError nat

fun truth_value :: "py_exception \<Rightarrow> bool" where
  "truth_value (FalsyError n) = False"
| "truth_value e = True"

text \<open>A task identifier; \<^verbatim>\<open>uuid4()\<close> is an input of the model.\<close>

type_synonym uuid = nat

text \<open>Floats are idealised as reals; \<open>None\<close> of an \<^verbatim>\<open>Optional\<close> field is \<open>None\<close>.\<close>

record 'v TaskResult =
  task_id :: uuid
  status :: TaskStatus
  result :: "'v option"
  error :: "py_exception option"
  start_time :: "real option"
  end_time :: "real option"
  execution_time :: "real option"

text \<open>
  What one \<^verbatim>\<open>await\<close> of a task's unit of work produces: a value (possibly Python's
  \<^verbatim>\<open>None\<close>), an exception caught by \<^verbatim>\<open>except Exception\<close> (a timeout of
  \<^verbatim>\<open>asyncio.wait_for\<close> is \<open>Raised (TimeoutError _)\<close>), or a cancellation.

  The unit of work itself is the list of the outcomes of its successive awaits. A native
  coroutine object is a one-element list: awaiting it again raises
  \<^verbatim>\<open>RuntimeError: cannot reuse already awaited coroutine\<close>, which is what
  \<open>await_coro\<close> returns on the exhausted list. Longer lists are awaitables that can be
  awaited again.
\<close>

datatype 'v outcome = Returned "'v option" | Raised py_exception | CancelledError

type_synonym 'v coroutine = "'v outcome list"

fun await_coro :: "'v coroutine \<Rightarrow> 'v outcome \<times> 'v coroutine" where
  "await_coro [] = (Raised (RuntimeError ''cannot reuse already awaited coroutine''), [])"
| "await_coro (out # rest) = (out, rest)"

record 'v QueuedTask =
  qtask_id :: uuid
  coro :: "'v coroutine"
  priority :: TaskPriority
  created_at :: real
  timeout :: "real option"
  retry_count :: int
  max_retries :: int
  retry_delay :: real
  callback :: "nat option"

text \<open>
  The \<^verbatim>\<open>asyncio.Task\<close> stored in \<^verbatim>\<open>_running_tasks\<close>: the wrapper activation of one
  queued task, and whether \<^verbatim>\<open>.cancel()\<close> was called on it.
\<close>

record 'v asyncio_task =
  wrapped :: "'v QueuedTask"
  cancel_requested :: bool

record Metrics =
  total_tasks :: nat
  completed_tasks :: nat
  failed_tasks :: nat
  cancelled_tasks :: nat
  average_execution_time :: real

text \<open>
  The manager. Both dictionaries are association lists with Python's \<^verbatim>\<open>dict\<close>
  behaviour (\<open>AList.update\<close> replaces in place or appends, \<open>AList.delete\<close> is
  \<^verbatim>\<open>pop(k, None)\<close>). \<open>semaphore\<close> is the number of free slots of
  \<^verbatim>\<open>asyncio.Semaphore\<close>. \<open>worker_task\<close> is where the queue worker is suspended:
  \<open>None\<close> between two cycles, \<open>Some t\<close> inside \<^verbatim>\<open>await self._semaphore.acquire()\<close>
  holding the task \<open>t\<close> it has popped. \<open>notified\<close> logs the calls of
  \<^verbatim>\<open>_notify_callbacks\<close>, \<open>callback_calls\<close> those of a task's own callback; callbacks run
  to completion without suspending and their own failures are swallowed by the source.
  \<open>retry_sleeps\<close> logs the \<^verbatim>\<open>asyncio.sleep(queued_task.retry_delay)\<close> of the wrappers.
\<close>

record 'v AsyncTaskManager =
  max_concurrent_tasks :: int
  max_queue_size :: int
  default_timeout :: real
  running_tasks :: "(uuid \<times> 'v asyncio_task) list"
  task_queue :: "'v QueuedTask list"
  task_results :: "(uuid \<times> 'v TaskResult) list"
  task_history :: "'v TaskResult list"
  semaphore :: nat
  worker_task :: "'v QueuedTask option"
  metrics :: Metrics
  notified :: "(string \<times> 'v TaskResult) list"
  callback_calls :: "(nat \<times> 'v TaskResult) list"
  retry_sleeps :: "(uuid \<times> real) list"

text \<open>\<^verbatim>\<open>__init__\<close>; \<^verbatim>\<open>asyncio.Semaphore\<close> rejects a negative initial value.\<close>

definition init :: "int \<Rightarrow> int \<Rightarrow> real \<Rightarrow> py_exception + 'v AsyncTaskManager" where
  "init n q d =
     (if n < 0 then Inl (ValueError ''Semaphore initial value must be >= 0'')
      else Inr \<lparr> max_concurrent_tasks = n, max_queue_size = q, default_timeout = d,
                 running_tasks = [], task_queue = [], task_results = [], task_history = [],
                 semaphore = nat n, worker_task = None,
                 metrics = \<lparr> total_tasks = 0, completed_tasks = 0, failed_tasks = 0,
                             cancelled_tasks = 0, average_execution_time = 0 \<rparr>,
                 notified = [], callback_calls = [], retry_sleeps = [] \<rparr>)"

text \<open>Truth value of an \<^verbatim>\<open>Optional[float]\<close>: \<^verbatim>\<open>None\<close> and \<^verbatim>\<open>0.0\<close> are false.\<close>

definition truthy :: "real option \<Rightarrow> bool" where
  "truthy t = (case t of None \<Rightarrow> False | Some x \<Rightarrow> x \<noteq> 0)"

text \<open>Truth value of an \<^verbatim>\<open>Optional[Exception]\<close>: \<^verbatim>\<open>None\<close> is false.\<close>

definition error_truthy :: "py_exception option \<Rightarrow> bool" where
  "error_truthy e = (case e of None \<Rightarrow> False | Some x \<Rightarrow> truth_value x)"

text \<open>
  \<^verbatim>\<open>list.sort(key=lambda x: x.priority.value, reverse=True)\<close>: a stable sort, and
  \<^verbatim>\<open>reverse=True\<close> keeps the original order of equal keys, so it is the stable ascending
  sort on the negated key.
\<close>

definition sort_queue :: "'v QueuedTask list \<Rightarrow> 'v QueuedTask list" where
  "sort_queue q = sort_key (\<lambda>x. - priority_value (priority x)) q"

definition notify_callbacks ::
  "string \<Rightarrow> 'v TaskResult \<Rightarrow> 'v AsyncTaskManager \<Rightarrow> 'v AsyncTaskManager" where
  "notify_callbacks event r m = m\<lparr> notified := notified m @ [(event, r)] \<rparr>"

section \<open>Submission\<close>

text \<open>
  \<^verbatim>\<open>submit_task\<close>. \<open>tid\<close> is the value of \<^verbatim>\<open>uuid4()\<close> and \<open>now\<close> the value of
  \<^verbatim>\<open>time.time()\<close> taken by the dataclass default. The result is the raised exception or
  the returned identifier, together with the manager after the call.
\<close>

definition submit_task ::
  "'v AsyncTaskManager \<Rightarrow> uuid \<Rightarrow> real \<Rightarrow> 'v coroutine \<Rightarrow> TaskPriority \<Rightarrow> real option \<Rightarrow> int
     \<Rightarrow> real \<Rightarrow> nat option \<Rightarrow> (py_exception + uuid) \<times> 'v AsyncTaskManager" where
  "submit_task m tid now c p t_o mr rd cb =
     (if int (length (task_queue m)) \<ge> max_queue_size m
      then (Inl (RuntimeError ''Task queue is full''), m)
      else
        let queued_task = \<lparr> qtask_id = tid, coro = c, priority = p, created_at = now,
                             timeout = (if truthy t_o then t_o else Some (default_timeout m)),
                             retry_count = 0, max_retries = mr, retry_delay = rd,
                             callback = cb \<rparr>;
            m1 = m\<lparr> task_queue := sort_queue (task_queue m @ [queued_task]) \<rparr>;
            m2 = m1\<lparr> metrics := (metrics m1)\<lparr> total_tasks := total_tasks (metrics m1) + 1 \<rparr> \<rparr>
        in (Inr tid, m2))"

section \<open>Cancellation\<close>

text \<open>\<^verbatim>\<open>TaskResult(task_id=task_id, status=TaskStatus.CANCELLED)\<close>.\<close>

definition cancelled_result :: "uuid \<Rightarrow> 'v TaskResult" where
  "cancelled_result tid =
     \<lparr> task_id = tid, status = CANCELLED, result = None, error = None,
       start_time = None, end_time = None, execution_time = None \<rparr>"

text \<open>\<^verbatim>\<open>del self._task_queue[i]\<close> at the first \<open>i\<close> whose task has the identifier.\<close>

fun del_queued :: "uuid \<Rightarrow> 'v QueuedTask list \<Rightarrow> 'v QueuedTask list" where
  "del_queued tid [] = []"
| "del_queued tid (q # qs) = (if qtask_id q = tid then qs else q # del_queued tid qs)"

definition cancel_task :: "'v AsyncTaskManager \<Rightarrow> uuid \<Rightarrow> bool \<times> 'v AsyncTaskManager" where
  "cancel_task m tid =
     (case map_of (running_tasks m) tid of
        Some h \<Rightarrow>
          (True, m\<lparr> running_tasks :=
                      AList.update tid (h\<lparr> cancel_requested := True \<rparr>) (running_tasks m) \<rparr>)
      | None \<Rightarrow>
          (case find (\<lambda>q. qtask_id q = tid) (task_queue m) of
             Some q \<Rightarrow>
               let r = cancelled_result tid;
                   m1 = m\<lparr> task_queue := del_queued tid (task_queue m) \<rparr>;
                   m2 = m1\<lparr> task_results := AList.update tid r (task_results m1) \<rparr>;
                   m3 = m2\<lparr> metrics := (metrics m2)\<lparr> cancelled_tasks :=
                                            cancelled_tasks (metrics m2) + 1 \<rparr> \<rparr>
               in (True, notify_callbacks ''task_cancelled'' r m3)
           | None \<Rightarrow> (False, m)))"

text \<open>
  \<^verbatim>\<open>cancel_all_tasks\<close>: \<^verbatim>\<open>cancel_task\<close> on every key of the running set, then a
  CANCELLED result for every queued task, then \<^verbatim>\<open>clear()\<close>.
\<close>

definition cancel_queued :: "'v AsyncTaskManager \<Rightarrow> 'v QueuedTask \<Rightarrow> 'v AsyncTaskManager" where
  "cancel_queued m q =
     (let r = cancelled_result (qtask_id q);
          m1 = m\<lparr> task_results := AList.update (qtask_id q) r (task_results m) \<rparr>;
          m2 = m1\<lparr> metrics := (metrics m1)\<lparr> cancelled_tasks :=
                                   cancelled_tasks (metrics m1) + 1 \<rparr> \<rparr>
      in notify_callbacks ''task_cancelled'' r m2)"

definition cancel_all_tasks :: "'v AsyncTaskManager \<Rightarrow> 'v AsyncTaskManager" where
  "cancel_all_tasks m =
     (let m1 = foldl (\<lambda>s k. snd (cancel_task s k)) m (map fst (running_tasks m));
          m2 = foldl cancel_queued m1 (task_queue m1)
      in m2\<lparr> task_queue := [] \<rparr>)"

section \<open>The queue worker\<close>

text \<open>
  The end of \<^verbatim>\<open>_process_queue\<close>, once \<^verbatim>\<open>acquire()\<close> has returned: the slot is taken,
  the wrapper is created as an \<^verbatim>\<open>asyncio.Task\<close> and entered in the running set.
\<close>

definition start_task :: "'v AsyncTaskManager \<Rightarrow> 'v QueuedTask \<Rightarrow> 'v AsyncTaskManager" where
  "start_task m queued_task =
     m\<lparr> semaphore := semaphore m - 1,
        running_tasks := AList.update (qtask_id queued_task)
                           \<lparr> wrapped = queued_task, cancel_requested = False \<rparr> (running_tasks m),
        worker_task := None \<rparr>"

text \<open>
  \<^verbatim>\<open>_process_queue\<close>, one cycle of the worker. With no free slot the worker stays
  suspended in \<^verbatim>\<open>acquire()\<close>, holding the task it has popped.
\<close>

definition process_queue :: "'v AsyncTaskManager \<Rightarrow> 'v AsyncTaskManager" where
  "process_queue m =
     (if int (length (running_tasks m)) \<ge> max_concurrent_tasks m then m
      else case task_queue m of
             [] \<Rightarrow> m
           | queued_task # rest \<Rightarrow>
               let m1 = m\<lparr> task_queue := rest \<rparr>
               in if semaphore m1 = 0 then m1\<lparr> worker_task := Some queued_task \<rparr>
                  else start_task m1 queued_task)"

text \<open>The suspended \<^verbatim>\<open>acquire()\<close> returns once a slot has been released.\<close>

definition resume_acquire :: "'v AsyncTaskManager \<Rightarrow> 'v AsyncTaskManager" where
  "resume_acquire m =
     (case worker_task m of
        None \<Rightarrow> m
      | Some queued_task \<Rightarrow> if semaphore m = 0 then m else start_task m queued_task)"

text \<open>One step of \<^verbatim>\<open>_queue_worker\<close>: a new cycle, or the end of a suspended one.\<close>

definition queue_worker :: "'v AsyncTaskManager \<Rightarrow> 'v AsyncTaskManager" where
  "queue_worker m = (case worker_task m of None \<Rightarrow> process_queue m | Some _ \<Rightarrow> resume_acquire m)"

section \<open>The execution wrapper\<close>

text \<open>
  \<^verbatim>\<open>_update_average_execution_time\<close>. The counters start at 0 and are only incremented,
  so they are naturals; the division raises when the completed count is 0.
\<close>

definition update_average_execution_time ::
  "'v AsyncTaskManager \<Rightarrow> real \<Rightarrow> py_exception + 'v AsyncTaskManager" where
  "update_average_execution_time m t =
     (let completed = completed_tasks (metrics m);
          current_avg = average_execution_time (metrics m)
      in if completed = 0 then Inl ZeroDivisionError
         else Inr (m\<lparr> metrics := (metrics m)\<lparr> average_execution_time :=
                       (current_avg * (real completed - 1) + t) / real completed \<rparr> \<rparr>))"

text \<open>
  Where a \<^verbatim>\<open>.cancel()\<close> of the wrapper's \<^verbatim>\<open>asyncio.Task\<close> takes effect, if at all: while
  the unit of work is awaited, or during \<^verbatim>\<open>asyncio.sleep(retry_delay)\<close>.
\<close>

datatype cancellation = NotCancelled | CancelledAtWork | CancelledAtRetrySleep

text \<open>
  The await of the unit of work inside the wrapper (under \<^verbatim>\<open>asyncio.wait_for\<close> when the
  task has a timeout): its outcome and what is left of the unit of work.
\<close>

definition await_work :: "cancellation \<Rightarrow> 'v QueuedTask \<Rightarrow> 'v outcome \<times> 'v coroutine" where
  "await_work c queued_task =
     (if c = CancelledAtWork then (CancelledError, coro queued_task)
      else await_coro (coro queued_task))"

text \<open>The \<^verbatim>\<open>finally\<close> block of \<^verbatim>\<open>_execute_queued_task\<close>.\<close>

definition finalize ::
  "'v AsyncTaskManager \<Rightarrow> 'v QueuedTask \<Rightarrow> 'v TaskResult \<Rightarrow> 'v AsyncTaskManager" where
  "finalize m queued_task r =
     (let m1 = m\<lparr> task_results := AList.update (qtask_id queued_task) r (task_results m) \<rparr>;
          m2 = m1\<lparr> task_history := task_history m1 @ [r] \<rparr>;
          m3 = (case callback queued_task of
                  None \<Rightarrow> m2
                | Some cb \<Rightarrow> m2\<lparr> callback_calls := callback_calls m2 @ [(cb, r)] \<rparr>);
          m4 = m3\<lparr> running_tasks := AList.delete (qtask_id queued_task) (running_tasks m3) \<rparr>
      in m4\<lparr> semaphore := semaphore m4 + 1 \<rparr>)"

text \<open>
  The \<^verbatim>\<open>except Exception as e\<close> handler. A cancellation during the retry sleep leaves the
  handler before the re-insertion.
\<close>

definition on_exception ::
  "'v AsyncTaskManager \<Rightarrow> 'v QueuedTask \<Rightarrow> 'v TaskResult \<Rightarrow> py_exception \<Rightarrow> real \<Rightarrow> real
     \<Rightarrow> cancellation \<Rightarrow> 'v AsyncTaskManager \<times> 'v TaskResult" where
  "on_exception m queued_task r e start_t end_t c =
     (let r1 = r\<lparr> status := FAILED, error := Some e, end_time := Some end_t,
                  execution_time := Some (end_t - start_t) \<rparr>
      in if retry_count queued_task < max_retries queued_task then
           (let retried = queued_task\<lparr> retry_count := retry_count queued_task + 1 \<rparr>;
                m1 = m\<lparr> retry_sleeps := retry_sleeps m @
                                           [(qtask_id retried, retry_delay retried)] \<rparr>
            in if c = CancelledAtRetrySleep then (m1, r1)
               else (m1\<lparr> task_queue := retried # task_queue m1 \<rparr>, r1))
         else
           (let m1 = m\<lparr> metrics := (metrics m)\<lparr> failed_tasks :=
                                      failed_tasks (metrics m) + 1 \<rparr> \<rparr>
            in (notify_callbacks ''task_failed'' r1 m1, r1)))"

text \<open>
  \<^verbatim>\<open>_execute_queued_task\<close>, from its first line to the end of \<^verbatim>\<open>finally\<close>.
  \<open>start_t\<close> and \<open>end_t\<close> are the two readings of \<^verbatim>\<open>time.time()\<close>. Awaiting consumes
  the unit of work, so the record that may be re-queued carries what is left of it.
\<close>

definition execute_queued_task ::
  "'v AsyncTaskManager \<Rightarrow> 'v QueuedTask \<Rightarrow> real \<Rightarrow> real \<Rightarrow> cancellation \<Rightarrow> 'v AsyncTaskManager" where
  "execute_queued_task m queued_task start_t end_t c =
     (let r0 = \<lparr> task_id = qtask_id queued_task, status = RUNNING, result = None, error = None,
                 start_time = Some start_t, end_time = None, execution_time = None \<rparr>;
          m0 = notify_callbacks ''task_started'' r0 m;
          (out, rest) = await_work c queued_task;
          qt = queued_task\<lparr> coro := rest \<rparr>
      in case out of
           Returned v \<Rightarrow>
             (let r1 = r0\<lparr> status := COMPLETED, result := v, end_time := Some end_t,
                           execution_time := Some (end_t - start_t) \<rparr>;
                  m1 = m0\<lparr> metrics := (metrics m0)\<lparr> completed_tasks :=
                                           completed_tasks (metrics m0) + 1 \<rparr> \<rparr>
              in case update_average_execution_time m1 (end_t - start_t) of
                   Inr m2 \<Rightarrow> finalize (notify_callbacks ''task_completed'' r1 m2) qt r1
                 | Inl e \<Rightarrow>
                     (let (m2, r2) = on_exception m1 qt r1 e start_t end_t c
                      in finalize m2 qt r2))
         | CancelledError \<Rightarrow>
             (let r1 = r0\<lparr> status := CANCELLED \<rparr>;
                  m1 = m0\<lparr> metrics := (metrics m0)\<lparr> cancelled_tasks :=
                                           cancelled_tasks (metrics m0) + 1 \<rparr> \<rparr>
              in finalize (notify_callbacks ''task_cancelled'' r1 m1) qt r1)
         | Raised e \<Rightarrow>
             (let (m1, r1) = on_exception m0 qt r0 e start_t end_t c
              in finalize m1 qt r1))"

section \<open>Runs of the manager\<close>

text \<open>
  A serial run, one element of the list per cycle, holding the two clock readings of the
  wrapper. In a cycle the worker takes one step, then the first task of the running set,
  if there is one, runs its wrapper to the end (cancelled at its unit of work if a
  cancellation was requested).
\<close>

definition serial_cycle :: "real \<times> real \<Rightarrow> 'v AsyncTaskManager \<Rightarrow> 'v AsyncTaskManager" where
  "serial_cycle st m =
     (let m1 = queue_worker m
      in case running_tasks m1 of
           [] \<Rightarrow> m1
         | (tid, h) # _ \<Rightarrow>
             execute_queued_task m1 (wrapped h) (fst st) (snd st)
               (if cancel_requested h then CancelledAtWork else NotCancelled))"

fun run_serial :: "(real \<times> real) list \<Rightarrow> 'v AsyncTaskManager \<Rightarrow> 'v AsyncTaskManager" where
  "run_serial [] m = m"
| "run_serial (st # ts) m = run_serial ts (serial_cycle st m)"

text \<open>
  The number of times the wrapper has run for a task: each run appends one Result to
  \<^verbatim>\<open>_task_history\<close>. A manager is idle when nothing is pending, running or held.
\<close>

definition attempts :: "'v AsyncTaskManager \<Rightarrow> uuid \<Rightarrow> nat" where
  "attempts m tid = length (filter (\<lambda>r. task_id r = tid) (task_history m))"

definition idle :: "'v AsyncTaskManager \<Rightarrow> bool" where
  "idle m = (task_queue m = [] \<and> running_tasks m = [] \<and> worker_task m = None)"

text \<open>Every identifier the manager still knows of.\<close>

definition known_ids :: "'v AsyncTaskManager \<Rightarrow> uuid set" where
  "known_ids m =
     qtask_id ` set (task_queue m) \<union> qtask_id ` set_option (worker_task m)
       \<union> fst ` set (running_tasks m) \<union> fst ` set (task_results m)"

text \<open>
  The interleavings of the event loop. Between two suspension points an activity runs
  alone, so a step is a whole call of \<^verbatim>\<open>submit_task\<close>, \<^verbatim>\<open>cancel_task\<close> or
  \<^verbatim>\<open>cancel_all_tasks\<close> (with an identifier from \<^verbatim>\<open>uuid4()\<close> that is new), a step of the
  queue worker, or the rest of the wrapper of a running task once its unit of work has
  ended; a wrapper is cancelled only after a request.
\<close>

inductive step :: "'v AsyncTaskManager \<Rightarrow> 'v AsyncTaskManager \<Rightarrow> bool" where
  submit: "tid \<notin> known_ids m \<Longrightarrow> step m (snd (submit_task m tid now c p t_o mr rd cb))"
| cancel: "step m (snd (cancel_task m tid))"
| cancel_all: "step m (cancel_all_tasks m)"
| worker: "step m (queue_worker m)"
| wrapper: "(tid, h) \<in> set (running_tasks m) \<Longrightarrow> (c \<noteq> NotCancelled \<longrightarrow> cancel_requested h)
     \<Longrightarrow> step m (execute_queued_task m (wrapped h) start_t end_t c)"

inductive reachable :: "int \<Rightarrow> int \<Rightarrow> real \<Rightarrow> 'v AsyncTaskManager \<Rightarrow> bool" for n q d where
  initial: "init n q d = Inr m \<Longrightarrow> reachable n q d m"
| after: "reachable n q d m \<Longrightarrow> step m m' \<Longrightarrow> reachable n q d m'"

section \<open>Callers that wait\<close>

text \<open>
  A caller suspends in \<^verbatim>\<open>asyncio.sleep\<close>, and the rest of the program runs meanwhile.
  \<open>others k\<close> is what the other activities do to the manager during the caller's \<open>k\<close>-th
  suspension, \<open>clock k\<close> the reading of \<^verbatim>\<open>time.time()\<close> after \<open>k\<close> suspensions,
  \<open>uuid4 k\<close> the \<open>k\<close>-th identifier drawn by the caller.

  The world of a caller is the manager and what the caller has done so far: the number
  of its suspensions, of its calls of \<^verbatim>\<open>uuid4()\<close> and of its calls of the factory of
  \<^verbatim>\<open>execute_with_retry\<close>, and the durations it has passed to \<^verbatim>\<open>asyncio.sleep\<close>, oldest
  first. \<open>suspend E d\<close> is \<^verbatim>\<open>await asyncio.sleep(d)\<close>; \<open>poll E\<close> is the sleep of
  \<^verbatim>\<open>wait_for_task\<close>.
\<close>

record 'v environment =
  others :: "nat \<Rightarrow> 'v AsyncTaskManager \<Rightarrow> 'v AsyncTaskManager"
  clock :: "nat \<Rightarrow> real"
  uuid4 :: "nat \<Rightarrow> uuid"

record 'v world =
  mgr :: "'v AsyncTaskManager"
  tick :: nat
  drawn :: nat
  made :: nat
  slept :: "real list"

definition suspend :: "'v environment \<Rightarrow> real \<Rightarrow> 'v world \<Rightarrow> 'v world" where
  "suspend E d w =
     w\<lparr> mgr := others E (tick w) (mgr w), tick := tick w + 1, slept := slept w @ [d] \<rparr>"

abbreviation poll :: "'v environment \<Rightarrow> 'v world \<Rightarrow> 'v world" where
  "poll E \<equiv> suspend E (1 / 10)"

text \<open>
  The loop of \<^verbatim>\<open>wait_for_task\<close>. It may poll forever, so it has fuel: the number of polls
  allowed, \<open>None\<close> when they do not suffice.
\<close>

fun wait_loop ::
  "nat \<Rightarrow> 'v environment \<Rightarrow> uuid \<Rightarrow> real option \<Rightarrow> real \<Rightarrow> 'v world
     \<Rightarrow> ((py_exception + 'v TaskResult) \<times> 'v world) option" where
  "wait_loop 0 E tid t_o start w = None"
| "wait_loop (Suc fuel) E tid t_o start w =
     (case map_of (task_results (mgr w)) tid of
        Some r \<Rightarrow> Some (Inr r, w)
      | None \<Rightarrow>
          if truthy t_o \<and> clock E (tick w) - start > the t_o
          then Some (Inl (TimeoutError ''Waiting for task timed out''), w)
          else wait_loop fuel E tid t_o start (poll E w))"

definition wait_for_task ::
  "nat \<Rightarrow> 'v environment \<Rightarrow> uuid \<Rightarrow> real option \<Rightarrow> 'v world
     \<Rightarrow> ((py_exception + 'v TaskResult) \<times> 'v world) option" where
  "wait_for_task fuel E tid t_o w = wait_loop fuel E tid t_o (clock E (tick w)) w"

text \<open>
  \<^verbatim>\<open>execute_task\<close>: \<^verbatim>\<open>submit_task\<close> with its defaults, then the wait, then the verdict,
  which tests the truth value of \<^verbatim>\<open>result.error\<close>.
\<close>

definition execute_task ::
  "nat \<Rightarrow> 'v environment \<Rightarrow> 'v world \<Rightarrow> 'v coroutine \<Rightarrow> TaskPriority \<Rightarrow> real option
     \<Rightarrow> ((py_exception + 'v option) \<times> 'v world) option" where
  "execute_task fuel E w c p t_o =
     (let w0 = w\<lparr> drawn := drawn w + 1 \<rparr>
      in case submit_task (mgr w0) (uuid4 E (drawn w)) (clock E (tick w0)) c p t_o 0 1 None of
           (Inl e, m1) \<Rightarrow> Some (Inl e, w0\<lparr> mgr := m1 \<rparr>)
         | (Inr tid, m1) \<Rightarrow>
             (case wait_for_task fuel E tid None (w0\<lparr> mgr := m1 \<rparr>) of
                None \<Rightarrow> None
              | Some (Inl e, w1) \<Rightarrow> Some (Inl e, w1)
              | Some (Inr r, w1) \<Rightarrow>
                  if status r = FAILED \<and> error_truthy (error r)
                  then Some (Inl (the (error r)), w1)
                  else Some (Inr (result r), w1)))"

text \<open>\<^verbatim>\<open>execute_task_group\<close>: the submission loop, then the loop that awaits.\<close>

fun submit_all ::
  "'v environment \<Rightarrow> 'v world \<Rightarrow> ('v coroutine \<times> TaskPriority) list \<Rightarrow> real option \<Rightarrow> uuid list
     \<Rightarrow> (py_exception + uuid list) \<times> 'v world" where
  "submit_all E w [] t_o task_ids = (Inr task_ids, w)"
| "submit_all E w ((c, p) # tasks) t_o task_ids =
     (let w0 = w\<lparr> drawn := drawn w + 1 \<rparr>
      in case submit_task (mgr w0) (uuid4 E (drawn w)) (clock E (tick w0)) c p t_o 0 1 None of
           (Inl e, m1) \<Rightarrow> (Inl e, w0\<lparr> mgr := m1 \<rparr>)
         | (Inr tid, m1) \<Rightarrow> submit_all E (w0\<lparr> mgr := m1 \<rparr>) tasks t_o (task_ids @ [tid]))"

definition cancel_each :: "'v AsyncTaskManager \<Rightarrow> uuid list \<Rightarrow> 'v AsyncTaskManager" where
  "cancel_each m ks = foldl (\<lambda>s k. snd (cancel_task s k)) m ks"

definition error_result :: "uuid \<Rightarrow> py_exception \<Rightarrow> 'v TaskResult" where
  "error_result tid e =
     \<lparr> task_id = tid, status = FAILED, result = None, error = Some e,
       start_time = None, end_time = None, execution_time = None \<rparr>"

fun await_all ::
  "nat \<Rightarrow> 'v environment \<Rightarrow> GroupFailurePolicy \<Rightarrow> real option \<Rightarrow> uuid list \<Rightarrow> uuid list
     \<Rightarrow> 'v TaskResult list \<Rightarrow> 'v world \<Rightarrow> ('v TaskResult list \<times> 'v world) option" where
  "await_all fuel E fp t_o task_ids [] results w = Some (results, w)"
| "await_all fuel E fp t_o task_ids (tid # todo) results w =
     (case wait_for_task fuel E tid t_o w of
        None \<Rightarrow> None
      | Some (Inr r, w1) \<Rightarrow>
          (let results1 = results @ [r]
           in if fp = FAIL_FAST \<and> status r = FAILED
              then Some (results1,
                         w1\<lparr> mgr := cancel_each (mgr w1) (drop (length results1) task_ids) \<rparr>)
              else await_all fuel E fp t_o task_ids todo results1 w1)
      | Some (Inl e, w1) \<Rightarrow>
          (let results1 = results @ [error_result tid e]
           in if fp = FAIL_FAST then Some (results1, w1)
              else await_all fuel E fp t_o task_ids todo results1 w1))"

definition execute_task_group ::
  "nat \<Rightarrow> 'v environment \<Rightarrow> 'v world \<Rightarrow> ('v coroutine \<times> TaskPriority) list
     \<Rightarrow> GroupFailurePolicy \<Rightarrow> real option
     \<Rightarrow> ((py_exception + 'v TaskResult list) \<times> 'v world) option" where
  "execute_task_group fuel E w tasks fp t_o =
     (case submit_all E w tasks t_o [] of
        (Inl e, w1) \<Rightarrow> Some (Inl e, w1)
      | (Inr task_ids, w1) \<Rightarrow>
          (case await_all fuel E fp t_o task_ids task_ids [] w1 of
             None \<Rightarrow> None
           | Some (rs, w2) \<Rightarrow> Some (Inr rs, w2)))"

text \<open>
  \<^verbatim>\<open>execute_with_retry\<close>. \<open>factory k\<close> is what the \<open>k\<close>-th call of \<^verbatim>\<open>coro_factory()\<close>
  returns. \<^verbatim>\<open>range(max_retries + 1)\<close> is the list \<open>[0..max_retries]\<close>; after an empty
  loop \<^verbatim>\<open>raise None\<close> is a \<^verbatim>\<open>TypeError\<close>.
\<close>

fun retry_loop ::
  "nat \<Rightarrow> 'v environment \<Rightarrow> (nat \<Rightarrow> 'v coroutine) \<Rightarrow> int \<Rightarrow> real \<Rightarrow> real option \<Rightarrow> int list
     \<Rightarrow> py_exception option \<Rightarrow> real \<Rightarrow> 'v world
     \<Rightarrow> ((py_exception + 'v option) \<times> 'v world) option" where
  "retry_loop fuel E factory mr b t_o [] last_exception current_delay w =
     Some (Inl (case last_exception of
                  None \<Rightarrow> TypeError ''exceptions must derive from BaseException''
                | Some e \<Rightarrow> e), w)"
| "retry_loop fuel E factory mr b t_o (attempt # later) last_exception current_delay w =
     (let c = factory (made w);
          w0 = w\<lparr> made := made w + 1 \<rparr>
      in case execute_task fuel E w0 c MEDIUM t_o of
           None \<Rightarrow> None
         | Some (Inr v, w1) \<Rightarrow> Some (Inr v, w1)
         | Some (Inl e, w1) \<Rightarrow>
             if attempt < mr
             then retry_loop fuel E factory mr b t_o later (Some e) (current_delay * b)
                    (suspend E current_delay w1)
             else retry_loop fuel E factory mr b t_o later (Some e) current_delay w1)"

definition execute_with_retry ::
  "nat \<Rightarrow> 'v environment \<Rightarrow> 'v world \<Rightarrow> (nat \<Rightarrow> 'v coroutine) \<Rightarrow> int \<Rightarrow> real \<Rightarrow> real
     \<Rightarrow> real option \<Rightarrow> ((py_exception + 'v option) \<times> 'v world) option" where
  "execute_with_retry fuel E w factory mr rd b t_o =
     retry_loop fuel E factory mr b t_o [0..mr] None rd w"

text \<open>The Results the wrapper stores for a failed and for a completed attempt.\<close>

definition failed_result :: "uuid \<Rightarrow> py_exception \<Rightarrow> real \<Rightarrow> real \<Rightarrow> 'v TaskResult" where
  "failed_result tid e s t =
     \<lparr> task_id = tid, status = FAILED, result = None, error = Some e,
       start_time = Some s, end_time = Some t, execution_time = Some (t - s) \<rparr>"

definition completed_result :: "uuid \<Rightarrow> 'v option \<Rightarrow> real \<Rightarrow> real \<Rightarrow> 'v TaskResult" where
  "completed_result tid v s t =
     \<lparr> task_id = tid, status = COMPLETED, result = v, error = None,
       start_time = Some s, end_time = Some t, execution_time = Some (t - s) \<rparr>"

text \<open>The Result the wrapper creates before it awaits the unit of work.\<close>

definition running_result :: "uuid \<Rightarrow> real \<Rightarrow> 'v TaskResult" where
  "running_result tid s =
     \<lparr> task_id = tid, status = RUNNING, result = None, error = None,
       start_time = Some s, end_time = None, execution_time = None \<rparr>"

text \<open>The record \<open>submit_task\<close> appends to the queue.\<close>

definition new_task ::
  "'v AsyncTaskManager \<Rightarrow> uuid \<Rightarrow> real \<Rightarrow> 'v coroutine \<Rightarrow> TaskPriority \<Rightarrow> real option \<Rightarrow> int
     \<Rightarrow> real \<Rightarrow> nat option \<Rightarrow> 'v QueuedTask" where
  "new_task m tid now c p t_o mr rd cb =
     \<lparr> qtask_id = tid, coro = c, priority = p, created_at = now,
       timeout = (if truthy t_o then t_o else Some (default_timeout m)),
       retry_count = 0, max_retries = mr, retry_delay = rd, callback = cb \<rparr>"

text \<open>
  The order in which tasks were executed: the identifiers of the \<^verbatim>\<open>task_started\<close>
  notifications, oldest first. A queue is in priority order when no entry has a higher
  priority than an entry before it.
\<close>

definition execution_order :: "'v AsyncTaskManager \<Rightarrow> uuid list" where
  "execution_order m = map (task_id \<circ> snd) (filter (\<lambda>n. fst n = ''task_started'') (notified m))"


text \<open>
  The identifiers of the pending tasks, of the running set and of the task the worker
  holds while it waits for a slot. The handles are well formed when each wraps the task
  it is stored under. \<open>slots_inv n\<close> is the accounting of the slots: the free slots of the
  semaphore plus the size of the running set make \<open>n\<close>, and no task is at two places.
\<close>

definition queued_ids :: "'v AsyncTaskManager \<Rightarrow> uuid list" where
  "queued_ids m = map qtask_id (task_queue m)"

definition running_ids :: "'v AsyncTaskManager \<Rightarrow> uuid list" where
  "running_ids m = map fst (running_tasks m)"

definition held_ids :: "'v AsyncTaskManager \<Rightarrow> uuid list" where
  "held_ids m = (case worker_task m of None \<Rightarrow> [] | Some q \<Rightarrow> [qtask_id q])"

definition handles_ok :: "'v AsyncTaskManager \<Rightarrow> bool" where
  "handles_ok m = (\<forall>kh\<in>set (running_tasks m). qtask_id (wrapped (snd kh)) = fst kh)"

definition slots_inv :: "int \<Rightarrow> 'v AsyncTaskManager \<Rightarrow> bool" where
  "slots_inv n m =
     (max_concurrent_tasks m = n
      \<and> int (semaphore m) + int (length (running_ids m)) = n
      \<and> distinct (held_ids m @ queued_ids m @ running_ids m)
      \<and> handles_ok m)"

text \<open>
  What the manager stores: a Result with a terminal status, no output value unless
  COMPLETED and an error when FAILED. A result store is well formed when every entry is
  such a Result, filed under its own identifier.
\<close>

definition stored_ok :: "'v TaskResult \<Rightarrow> bool" where
  "stored_ok r =
     (status r = COMPLETED
      \<or> (status r = FAILED \<and> result r = None \<and> error r \<noteq> None)
      \<or> (status r = CANCELLED \<and> result r = None))"

definition results_ok :: "'v AsyncTaskManager \<Rightarrow> bool" where
  "results_ok m = list_all (\<lambda>kr. task_id (snd kr) = fst kr \<and> stored_ok (snd kr)) (task_results m)"


text \<open>The world of a caller of \<open>execute_task\<close> right after its \<open>submit_task\<close>.\<close>

definition submitted ::
  "'v environment \<Rightarrow> 'v world \<Rightarrow> 'v coroutine \<Rightarrow> TaskPriority \<Rightarrow> real option \<Rightarrow> 'v world" where
  "submitted E w c p t_o =
     w\<lparr> drawn := drawn w + 1,
        mgr := snd (submit_task (mgr w) (uuid4 E (drawn w)) (clock E (tick w)) c p t_o 0 1 None) \<rparr>"




text \<open>
  The steps of the event loop that execute tasks: a step of the queue worker, or the rest
  of the wrapper of a running task. \<open>at_stage L base sem n busy\<close> describes a manager
  with one slot that was given the queue \<open>L\<close> and has executed its first \<open>n\<close> tasks, the
  next one running when \<open>busy\<close>.
\<close>

inductive progress :: "'v AsyncTaskManager \<Rightarrow> 'v AsyncTaskManager \<Rightarrow> bool" where
  worker: "progress m (queue_worker m)"
| wrapper: "(tid, h) \<in> set (running_tasks m) \<Longrightarrow> (c \<noteq> NotCancelled \<longrightarrow> cancel_requested h)
     \<Longrightarrow> progress m (execute_queued_task m (wrapped h) start_t end_t c)"


text \<open>
  The retries of one task. \<open>incarnation q n\<close> is the entry that the \<open>except Exception\<close>
  branch of the wrapper puts back after the \<open>n\<close>-th failed attempt of \<open>q\<close>: the same task
  with the rest of its unit of work and \<open>retry_count\<close> incremented \<open>n\<close> times. \<open>retries q\<close>
  is the condition of that branch for an attempt that is not cancelled, and
  \<open>outcome_status\<close> is the status that \<open>finally\<close> stores for an outcome. \<open>retry_stage\<close>
  describes a manager whose only task is \<open>q\<close>, after \<open>n\<close> attempts, waiting in the queue or
  running.
\<close>

fun incarnation :: "'v QueuedTask \<Rightarrow> nat \<Rightarrow> 'v QueuedTask" where
  "incarnation q 0 = q"
| "incarnation q (Suc n) =
     (incarnation q n)\<lparr> coro := snd (await_coro (coro (incarnation q n))),
                         retry_count := retry_count (incarnation q n) + 1 \<rparr>"

definition retries :: "'v QueuedTask \<Rightarrow> bool" where
  "retries q =
     (case fst (await_coro (coro q)) of
        Raised e \<Rightarrow> retry_count q < max_retries q
      | _ \<Rightarrow> False)"

fun outcome_status :: "'v outcome \<Rightarrow> TaskStatus" where
  "outcome_status (Returned v) = COMPLETED"
| "outcome_status (Raised e) = FAILED"
| "outcome_status CancelledError = CANCELLED"

definition retry_stage ::
  "'v QueuedTask \<Rightarrow> nat \<Rightarrow> nat \<Rightarrow> nat \<Rightarrow> bool \<Rightarrow> 'v AsyncTaskManager \<Rightarrow> bool" where
  "retry_stage q K base n busy m =
     (worker_task m = None \<and> 0 < max_concurrent_tasks m
      \<and> attempts m (qtask_id q) = base + n
      \<and> (0 < n \<longrightarrow>
           (case map_of (task_results m) (qtask_id q) of
              None \<Rightarrow> False
            | Some r \<Rightarrow>
                status r = outcome_status (fst (await_coro (coro (incarnation q (n - 1)))))
                \<and> (status r = COMPLETED \<longrightarrow>
                      fst (await_coro (coro (incarnation q (n - 1)))) = Returned (result r))))
      \<and> (if busy
          then n < K \<and> task_queue m = []
               \<and> running_tasks m
                   = [(qtask_id q, \<lparr> wrapped = incarnation q n, cancel_requested = False \<rparr>)]
          else n \<le> K \<and> running_tasks m = [] \<and> 0 < semaphore m
               \<and> task_queue m = (if n < K then [incarnation q n] else [])))"

text \<open>
  The attempts of \<^verbatim>\<open>execute_with_retry\<close> as the specification describes them, to be
  compared with \<open>retry_loop\<close>. Attempt \<open>0\<close> awaits, through \<open>execute_task\<close>, the unit of work
  that the first call of the factory returns. Attempt \<open>k + 1\<close> is made only when attempt
  \<open>k\<close> has raised: after a sleep of \<open>retry_delay * backoff_multiplier ^ k\<close> it awaits the
  unit of work of the next call of the factory. \<open>spec_attempt ... k\<close> is the outcome of
  attempt \<open>k\<close> with the world it leaves, \<open>None\<close> when the attempt is not made or does not
  end; \<open>spec_attempt_fails ... k\<close> says that attempt \<open>k\<close> was made and raised.

  \<open>sleep_log ps rd b n\<close> is what a caller that makes the attempts \<open>0, ..., n\<close> passes to
  \<^verbatim>\<open>asyncio.sleep\<close>, in order: the \<open>ps k\<close> polls of attempt \<open>k\<close> and, after each attempt
  but the last, the delay \<open>rd * b ^ k\<close>.
\<close>

fun spec_attempt ::
  "nat \<Rightarrow> 'v environment \<Rightarrow> (nat \<Rightarrow> 'v coroutine) \<Rightarrow> real \<Rightarrow> real \<Rightarrow> real option \<Rightarrow> 'v world \<Rightarrow> nat
     \<Rightarrow> ((py_exception + 'v option) \<times> 'v world) option" where
  "spec_attempt fuel E factory rd b t_o w 0 =
     execute_task fuel E (w\<lparr> made := made w + 1 \<rparr>) (factory (made w)) MEDIUM t_o"
| "spec_attempt fuel E factory rd b t_o w (Suc k) =
     (case spec_attempt fuel E factory rd b t_o w k of
        Some (Inl e, w1) \<Rightarrow>
          execute_task fuel E ((suspend E (rd * b ^ k) w1)\<lparr> made := made w + Suc k + 1 \<rparr>)
            (factory (made w + Suc k)) MEDIUM t_o
      | _ \<Rightarrow> None)"

definition spec_attempt_fails ::
  "nat \<Rightarrow> 'v environment \<Rightarrow> (nat \<Rightarrow> 'v coroutine) \<Rightarrow> real \<Rightarrow> real \<Rightarrow> real option \<Rightarrow> 'v world \<Rightarrow> nat
     \<Rightarrow> bool" where
  "spec_attempt_fails fuel E factory rd b t_o w k =
     (case spec_attempt fuel E factory rd b t_o w k of Some (Inl e, w1) \<Rightarrow> True | _ \<Rightarrow> False)"

definition sleep_log :: "(nat \<Rightarrow> nat) \<Rightarrow> real \<Rightarrow> real \<Rightarrow> nat \<Rightarrow> real list" where
  "sleep_log ps rd b n =
     concat (map (\<lambda>k. replicate (ps k) (1 / 10) @ (if k < n then [rd * b ^ k] else [])) [0..<Suc n])"



section \<open>Example inputs\<close>

text \<open>A manager with two slots and room for ten pending tasks, as \<^verbatim>\<open>__init__\<close> builds it.\<close>

definition example_manager :: "nat AsyncTaskManager" where
  "example_manager = projr (init 2 10 300)"

text \<open>A LOW task whose first await times out and whose second returns 1, one retry allowed.\<close>

definition example_task :: "nat QueuedTask" where
  "example_task =
     \<lparr> qtask_id = 5, coro = [Raised (TimeoutError ''wait_for''), Returned (Some 1)],
       priority = LOW, created_at = 0, timeout = Some 300, retry_count = 0,
       max_retries = 1, retry_delay = 1 / 2, callback = None \<rparr>"


definition example_single :: "nat AsyncTaskManager" where
  "example_single = projr (init 1 10 300)"

text \<open>
  The single-slot manager after a LOW and a HIGH submission and one step of the worker.
\<close>

definition example_busy :: "nat AsyncTaskManager" where
  "example_busy =
     queue_worker
       (snd (submit_task (snd (submit_task example_single 10 0 [Returned None] LOW None 0 1 None))
               11 0 [Returned None] HIGH None 0 1 None))"

text \<open>
  The environment of a waiting caller in which the manager runs one serial cycle during
  each suspension. The clock advances one second per suspension.
\<close>

definition example_env :: "nat environment" where
  "example_env = \<lparr> others = (\<lambda>k. serial_cycle (real k, real k + 1)), clock = real,
                    uuid4 = (\<lambda>k. 100 + k) \<rparr>"

definition example_world :: "nat world" where
  "example_world = \<lparr> mgr = example_single, tick = 0, drawn = 0, made = 0, slept = [] \<rparr>"

text \<open>A group of three tasks: the first fails, the others return.\<close>

definition example_group :: "(nat coroutine \<times> TaskPriority) list" where
  "example_group = [([Raised (ValueError ''boom'')], HIGH), ([Returned (Some 7)], LOW),
                    ([Returned (Some 8)], LOW)]"

text \<open>
  Two factories: the units of work of the first two calls raise and the third returns
  7; every unit of work raises.
\<close>

definition example_factory :: "nat \<Rightarrow> nat coroutine" where
  "example_factory k = (if k < 2 then [Raised (UserError k)] else [Returned (Some 7)])"

definition example_failing_factory :: "nat \<Rightarrow> nat coroutine" where
  "example_failing_factory k = [Raised (UserError k)]"



section \<open>What each part of the wrapper changes\<close>

lemma finalize_frame:
  "max_concurrent_tasks (finalize m qt r) = max_concurrent_tasks m"
  "max_queue_size (finalize m qt r) = max_queue_size m"
  "worker_task (finalize m qt r) = worker_task m"
  "semaphore (finalize m qt r) = semaphore m + 1"
  "running_tasks (finalize m qt r) = AList.delete (qtask_id qt) (running_tasks m)"
  "task_queue (finalize m qt r) = task_queue m"
  "notified (finalize m qt r) = notified m"
  "metrics (finalize m qt r) = metrics m"
  "retry_sleeps (finalize m qt r) = retry_sleeps m"
  "default_timeout (finalize m qt r) = default_timeout m"
  "task_results (finalize m qt r) = AList.update (qtask_id qt) r (task_results m)"
  "task_history (finalize m qt r) = task_history m @ [r]"
  by (simp_all add: finalize_def Let_def split: option.splits)

lemma notify_frame:
  "max_concurrent_tasks (notify_callbacks ev r m) = max_concurrent_tasks m"
  "max_queue_size (notify_callbacks ev r m) = max_queue_size m"
  "worker_task (notify_callbacks ev r m) = worker_task m"
  "semaphore (notify_callbacks ev r m) = semaphore m"
  "running_tasks (notify_callbacks ev r m) = running_tasks m"
  "task_queue (notify_callbacks ev r m) = task_queue m"
  "notified (notify_callbacks ev r m) = notified m @ [(ev, r)]"
  "metrics (notify_callbacks ev r m) = metrics m"
  "retry_sleeps (notify_callbacks ev r m) = retry_sleeps m"
  "default_timeout (notify_callbacks ev r m) = default_timeout m"
  "task_results (notify_callbacks ev r m) = task_results m"
  "task_history (notify_callbacks ev r m) = task_history m"
  "callback_calls (notify_callbacks ev r m) = callback_calls m"
  by (simp_all add: notify_callbacks_def)

lemma on_exception_frame:
  "max_concurrent_tasks (fst (on_exception m qt r e s t c)) = max_concurrent_tasks m"
  "max_queue_size (fst (on_exception m qt r e s t c)) = max_queue_size m"
  "worker_task (fst (on_exception m qt r e s t c)) = worker_task m"
  "semaphore (fst (on_exception m qt r e s t c)) = semaphore m"
  "running_tasks (fst (on_exception m qt r e s t c)) = running_tasks m"
  "default_timeout (fst (on_exception m qt r e s t c)) = default_timeout m"
  "task_results (fst (on_exception m qt r e s t c)) = task_results m"
  "task_history (fst (on_exception m qt r e s t c)) = task_history m"
  "callback_calls (fst (on_exception m qt r e s t c)) = callback_calls m"
  "snd (on_exception m qt r e s t c) = r\<lparr> status := FAILED, error := Some e, end_time := Some t,
                  execution_time := Some (t - s) \<rparr>"
  by (simp_all add: on_exception_def Let_def notify_frame)

lemma on_exception_queue:
  "task_queue (fst (on_exception m qt r e s t c)) =
     (if retry_count qt < max_retries qt \<and> c \<noteq> CancelledAtRetrySleep
      then qt\<lparr> retry_count := retry_count qt + 1 \<rparr> # task_queue m else task_queue m)"
  by (simp add: on_exception_def Let_def notify_frame)

lemma on_exception_notified:
  "notified (fst (on_exception m qt r e s t c)) =
     (if retry_count qt < max_retries qt then notified m
      else notified m @ [(''task_failed'', r\<lparr> status := FAILED, error := Some e, end_time := Some t,
                  execution_time := Some (t - s) \<rparr>)])"
  by (simp add: on_exception_def Let_def notify_frame)

lemma on_exception_metrics:
  "metrics (fst (on_exception m qt r e s t c)) =
     (if retry_count qt < max_retries qt then metrics m
      else (metrics m)\<lparr> failed_tasks := failed_tasks (metrics m) + 1 \<rparr>)"
  by (simp add: on_exception_def Let_def notify_frame)

lemma wrapper_returned:
  assumes "await_work c qt = (Returned v, cs)"
  shows "execute_queued_task m qt s t c =
     finalize
       (notify_callbacks ''task_completed'' (completed_result (qtask_id qt) v s t)
          ((notify_callbacks ''task_started'' (running_result (qtask_id qt) s) m)
             \<lparr> metrics := (metrics m)
                  \<lparr> completed_tasks := completed_tasks (metrics m) + 1,
                    average_execution_time :=
                      (average_execution_time (metrics m) * (real (completed_tasks (metrics m) + 1) - 1)
                         + (t - s)) / real (completed_tasks (metrics m) + 1) \<rparr> \<rparr>))
       (qt\<lparr> coro := cs \<rparr>) (completed_result (qtask_id qt) v s t)"
  using assms
  by (simp add: execute_queued_task_def Let_def update_average_execution_time_def
        completed_result_def running_result_def notify_callbacks_def)

lemma wrapper_cancelled:
  assumes "await_work c qt = (CancelledError, cs)"
  shows "execute_queued_task m qt s t c =
     finalize
       (notify_callbacks ''task_cancelled'' ((running_result (qtask_id qt) s)\<lparr> status := CANCELLED \<rparr>)
          ((notify_callbacks ''task_started'' (running_result (qtask_id qt) s) m)
             \<lparr> metrics := (metrics m)\<lparr> cancelled_tasks := cancelled_tasks (metrics m) + 1 \<rparr> \<rparr>))
       (qt\<lparr> coro := cs \<rparr>) ((running_result (qtask_id qt) s)\<lparr> status := CANCELLED \<rparr>)"
  using assms
  by (simp add: execute_queued_task_def Let_def running_result_def notify_callbacks_def)

lemma wrapper_raised:
  assumes "await_work c qt = (Raised e, cs)"
  shows "execute_queued_task m qt s t c =
     finalize
       (fst (on_exception (notify_callbacks ''task_started'' (running_result (qtask_id qt) s) m)
               (qt\<lparr> coro := cs \<rparr>) (running_result (qtask_id qt) s) e s t c))
       (qt\<lparr> coro := cs \<rparr>) (failed_result (qtask_id qt) e s t)"
  using assms
  by (simp add: execute_queued_task_def Let_def split_beta on_exception_frame
        running_result_def failed_result_def)

lemma wrapper_frame:
  "max_concurrent_tasks (execute_queued_task m qt s t c) = max_concurrent_tasks m"
  "max_queue_size (execute_queued_task m qt s t c) = max_queue_size m"
  "worker_task (execute_queued_task m qt s t c) = worker_task m"
  "semaphore (execute_queued_task m qt s t c) = semaphore m + 1"
  "running_tasks (execute_queued_task m qt s t c) = AList.delete (qtask_id qt) (running_tasks m)"
  "default_timeout (execute_queued_task m qt s t c) = default_timeout m"
proof -
  obtain out cs where aw: "await_work c qt = (out, cs)" by (cases "await_work c qt")
  show "max_concurrent_tasks (execute_queued_task m qt s t c) = max_concurrent_tasks m"
  "max_queue_size (execute_queued_task m qt s t c) = max_queue_size m"
  "worker_task (execute_queued_task m qt s t c) = worker_task m"
  "semaphore (execute_queued_task m qt s t c) = semaphore m + 1"
  "running_tasks (execute_queued_task m qt s t c) = AList.delete (qtask_id qt) (running_tasks m)"
  "default_timeout (execute_queued_task m qt s t c) = default_timeout m"
    using aw
    by (cases out; simp add: wrapper_returned wrapper_cancelled wrapper_raised finalize_frame
          notify_frame on_exception_frame)+
qed

lemma wrapper_started:
  "execution_order (execute_queued_task m qt s t c) = execution_order m @ [qtask_id qt]"
proof -
  obtain out cs where aw: "await_work c qt = (out, cs)" by (cases "await_work c qt")
  then show ?thesis
    by (cases out; simp add: wrapper_returned wrapper_cancelled wrapper_raised finalize_frame
          notify_frame on_exception_notified execution_order_def running_result_def)
qed

lemma wrapper_history_ids:
  "map task_id (task_history (execute_queued_task m qt s t c)) = map task_id (task_history m) @ [qtask_id qt]"
proof -
  obtain out cs where aw: "await_work c qt = (out, cs)" by (cases "await_work c qt")
  then show ?thesis
    by (cases out; simp add: wrapper_returned wrapper_cancelled wrapper_raised finalize_frame
          notify_frame on_exception_frame completed_result_def failed_result_def running_result_def)
qed


section \<open>Serial cycles\<close>

lemma sort_queue_single [simp]: "sort_queue [q] = [q]"
  by (simp add: sort_queue_def)

lemma serial_cycle_idle: "idle m \<Longrightarrow> serial_cycle st m = m"
  by (simp add: idle_def serial_cycle_def queue_worker_def process_queue_def)

lemma run_serial_idle: "idle m \<Longrightarrow> run_serial ts m = m"
  by (induction ts) (simp_all add: serial_cycle_idle)

lemma serial_cycle_head:
  assumes "task_queue m = qt # rest" "running_tasks m = []" "worker_task m = None"
    "0 < max_concurrent_tasks m" "0 < semaphore m"
  shows "serial_cycle (s, t) m =
           execute_queued_task (start_task (m\<lparr> task_queue := rest \<rparr>) qt) qt s t NotCancelled"
  using assms
  by (simp add: serial_cycle_def queue_worker_def process_queue_def start_task_def Let_def)

lemma await_work_uncancelled: "await_work NotCancelled qt = await_coro (coro qt)"
  by (simp add: await_work_def)

lemma cycle_frame:
  assumes "task_queue m = qt # rest" "running_tasks m = []" "worker_task m = None"
    "0 < max_concurrent_tasks m" "0 < semaphore m"
  shows "running_tasks (serial_cycle (s, t) m) = []"
    and "worker_task (serial_cycle (s, t) m) = None"
    and "max_concurrent_tasks (serial_cycle (s, t) m) = max_concurrent_tasks m"
    and "semaphore (serial_cycle (s, t) m) = semaphore m"
    and "execution_order (serial_cycle (s, t) m) = execution_order m @ [qtask_id qt]"
proof -
  have eo: "execution_order (start_task (m\<lparr> task_queue := rest \<rparr>) qt) = execution_order m"
    by (simp add: execution_order_def start_task_def)
  show "running_tasks (serial_cycle (s, t) m) = []"
    and "worker_task (serial_cycle (s, t) m) = None"
    and "max_concurrent_tasks (serial_cycle (s, t) m) = max_concurrent_tasks m"
    and "semaphore (serial_cycle (s, t) m) = semaphore m"
    using assms by (simp_all add: serial_cycle_head wrapper_frame start_task_def)
  show "execution_order (serial_cycle (s, t) m) = execution_order m @ [qtask_id qt]"
    using assms by (simp add: serial_cycle_head wrapper_started eo)
qed

lemma cycle_retry:
  assumes "task_queue m = qt # rest" "running_tasks m = []" "worker_task m = None"
    "0 < max_concurrent_tasks m" "0 < semaphore m"
    and "await_coro (coro qt) = (Raised e, cs)" "retry_count qt < max_retries qt"
  shows "task_queue (serial_cycle (s, t) m) = qt\<lparr> coro := cs, retry_count := retry_count qt + 1 \<rparr> # rest"
    and "task_results (serial_cycle (s, t) m) = AList.update (qtask_id qt) (failed_result (qtask_id qt) e s t) (task_results m)"
    and "task_history (serial_cycle (s, t) m) = task_history m @ [failed_result (qtask_id qt) e s t]"
    and "metrics (serial_cycle (s, t) m) = metrics m"
  using assms
  by (simp_all add: serial_cycle_head wrapper_raised await_work_uncancelled finalize_frame
        on_exception_frame on_exception_queue on_exception_metrics notify_frame start_task_def)

lemma cycle_fail:
  assumes "task_queue m = qt # rest" "running_tasks m = []" "worker_task m = None"
    "0 < max_concurrent_tasks m" "0 < semaphore m"
    and "await_coro (coro qt) = (Raised e, cs)" "\<not> retry_count qt < max_retries qt"
  shows "task_queue (serial_cycle (s, t) m) = rest"
    and "task_results (serial_cycle (s, t) m) = AList.update (qtask_id qt) (failed_result (qtask_id qt) e s t) (task_results m)"
    and "task_history (serial_cycle (s, t) m) = task_history m @ [failed_result (qtask_id qt) e s t]"
    and "metrics (serial_cycle (s, t) m) = (metrics m)\<lparr> failed_tasks := failed_tasks (metrics m) + 1 \<rparr>"
  using assms
  by (simp_all add: serial_cycle_head wrapper_raised await_work_uncancelled finalize_frame
        on_exception_frame on_exception_queue on_exception_metrics notify_frame start_task_def)

lemma cycle_success:
  assumes "task_queue m = qt # rest" "running_tasks m = []" "worker_task m = None"
    "0 < max_concurrent_tasks m" "0 < semaphore m"
    and "await_coro (coro qt) = (Returned v, cs)"
  shows "task_queue (serial_cycle (s, t) m) = rest"
    and "task_results (serial_cycle (s, t) m) = AList.update (qtask_id qt) (completed_result (qtask_id qt) v s t) (task_results m)"
    and "task_history (serial_cycle (s, t) m) = task_history m @ [completed_result (qtask_id qt) v s t]"
  using assms
  by (simp_all add: serial_cycle_head wrapper_returned await_work_uncancelled finalize_frame
        notify_frame start_task_def)

lemma submit_frame:
  "running_tasks (snd (submit_task m tid now c p t_o mr rd cb)) = running_tasks m"
  "worker_task (snd (submit_task m tid now c p t_o mr rd cb)) = worker_task m"
  "max_concurrent_tasks (snd (submit_task m tid now c p t_o mr rd cb)) = max_concurrent_tasks m"
  "max_queue_size (snd (submit_task m tid now c p t_o mr rd cb)) = max_queue_size m"
  "default_timeout (snd (submit_task m tid now c p t_o mr rd cb)) = default_timeout m"
  "semaphore (snd (submit_task m tid now c p t_o mr rd cb)) = semaphore m"
  "task_results (snd (submit_task m tid now c p t_o mr rd cb)) = task_results m"
  "task_history (snd (submit_task m tid now c p t_o mr rd cb)) = task_history m"
  "notified (snd (submit_task m tid now c p t_o mr rd cb)) = notified m"
  by (simp_all add: submit_task_def Let_def)

lemma submit_queue:
  "int (length (task_queue m)) < max_queue_size m \<Longrightarrow>
     task_queue (snd (submit_task m tid now c p t_o mr rd cb)) =
       sort_queue (task_queue m @ [new_task m tid now c p t_o mr rd cb])"
  by (simp add: submit_task_def Let_def new_task_def)

lemma new_task_simps [simp]:
  "qtask_id (new_task m tid now c p t_o mr rd cb) = tid"
  "coro (new_task m tid now c p t_o mr rd cb) = c"
  "priority (new_task m tid now c p t_o mr rd cb) = p"
  "retry_count (new_task m tid now c p t_o mr rd cb) = 0"
  "max_retries (new_task m tid now c p t_o mr rd cb) = mr"
  by (simp_all add: new_task_def)

lemma await_all_raised:
  assumes "\<forall>out\<in>set cs. \<exists>e. out = Raised e"
  shows "\<exists>e rest. await_coro cs = (Raised e, rest) \<and> (\<forall>out\<in>set rest. \<exists>e. out = Raised e)"
  using assms by (cases cs) auto


section \<open>Order of the pending queue\<close>









section \<open>Slot accounting\<close>

lemma map_del_queued: "map qtask_id (del_queued tid q) = remove1 tid (map qtask_id q)"
  by (induction q) auto

lemma set_update_subset: "set (AList.update k v al) \<subseteq> insert (k, v) (set al)"
  by (induction al) auto

lemma set_delete_subset: "set (AList.delete k al) \<subseteq> set al"
  by (auto simp: AList.delete_eq)

lemma length_removeAll_distinct:
  "distinct xs \<Longrightarrow> k \<in> set xs \<Longrightarrow> Suc (length (removeAll k xs)) = length xs"
  by (induction xs) auto

lemma cancel_task_frame:
  "max_concurrent_tasks (snd (cancel_task m tid)) = max_concurrent_tasks m"
  "max_queue_size (snd (cancel_task m tid)) = max_queue_size m"
  "semaphore (snd (cancel_task m tid)) = semaphore m"
  "worker_task (snd (cancel_task m tid)) = worker_task m"
  by (simp_all add: cancel_task_def Let_def notify_frame split: option.splits)

lemma cancel_task_running_ids: "running_ids (snd (cancel_task m tid)) = running_ids m"
proof (cases "map_of (running_tasks m) tid")
  case None
  then show ?thesis
    by (simp add: cancel_task_def running_ids_def Let_def notify_frame split: option.splits)
next
  case (Some h)
  then have "tid \<in> set (map fst (running_tasks m))"
    by (auto dest: map_of_SomeD intro: rev_image_eqI)
  with Some show ?thesis
    by (simp add: cancel_task_def running_ids_def update_keys del: set_map)
qed

lemma cancel_task_handles: "handles_ok m \<Longrightarrow> handles_ok (snd (cancel_task m tid))"
proof (cases "map_of (running_tasks m) tid")
  case None
  assume "handles_ok m"
  with None show ?thesis
    by (simp add: cancel_task_def handles_ok_def Let_def notify_frame split: option.splits)
next
  case (Some h)
  assume ok: "handles_ok m"
  from Some have in_r: "(tid, h) \<in> set (running_tasks m)" by (rule map_of_SomeD)
  have "set (running_tasks (snd (cancel_task m tid)))
          \<subseteq> insert (tid, h\<lparr> cancel_requested := True \<rparr>) (set (running_tasks m))"
    using Some set_update_subset[of tid "h\<lparr> cancel_requested := True \<rparr>" "running_tasks m"]
    by (simp add: cancel_task_def)
  moreover have "qtask_id (wrapped h) = tid" using ok in_r by (force simp: handles_ok_def)
  ultimately show ?thesis using ok by (auto simp: handles_ok_def)
qed

lemma cancel_task_queued_ids:
  "queued_ids (snd (cancel_task m tid)) = queued_ids m
   \<or> queued_ids (snd (cancel_task m tid)) = remove1 tid (queued_ids m)"
  by (simp add: cancel_task_def queued_ids_def Let_def notify_frame map_del_queued split: option.splits)

lemma held_ids_cong: "worker_task m' = worker_task m \<Longrightarrow> held_ids m' = held_ids m"
  by (simp add: held_ids_def)

lemma distinct_shrink:
  "distinct (a @ q @ r) \<Longrightarrow> set q' \<subseteq> set q \<Longrightarrow> distinct q' \<Longrightarrow> distinct (a @ q' @ r)"
  unfolding distinct_append set_append by blast

lemma slots_inv_cancel_task:
  assumes "slots_inv n m" shows "slots_inv n (snd (cancel_task m tid))"
proof -
  let ?m = "snd (cancel_task m tid)"
  have h: "held_ids ?m = held_ids m" by (rule held_ids_cong) (simp add: cancel_task_frame)
  have a: "distinct (held_ids m @ queued_ids m @ running_ids m)"
    using assms by (simp add: slots_inv_def)
  then have dq: "distinct (queued_ids m)" by simp
  have "set (queued_ids ?m) \<subseteq> set (queued_ids m) \<and> distinct (queued_ids ?m)"
    using cancel_task_queued_ids[of m tid] dq set_remove1_subset[of tid "queued_ids m"]
    by (elim disjE) simp_all
  then have d: "distinct (held_ids m @ queued_ids ?m @ running_ids m)"
    using distinct_shrink[OF a] by blast
  show ?thesis
    using assms d
    by (simp add: slots_inv_def h cancel_task_running_ids cancel_task_frame cancel_task_handles)
qed

lemma cancel_each_inv: "slots_inv n m \<Longrightarrow> slots_inv n (cancel_each m ks)"
  unfolding cancel_each_def
  by (induction ks arbitrary: m) (simp_all add: slots_inv_cancel_task)

lemma cancel_queued_frame:
  "max_concurrent_tasks (cancel_queued m q) = max_concurrent_tasks m"
  "semaphore (cancel_queued m q) = semaphore m"
  "worker_task (cancel_queued m q) = worker_task m"
  "running_tasks (cancel_queued m q) = running_tasks m"
  "task_queue (cancel_queued m q) = task_queue m"
  by (simp_all add: cancel_queued_def Let_def notify_frame)

lemma foldl_cancel_queued_frame:
  "max_concurrent_tasks (foldl cancel_queued m qs) = max_concurrent_tasks m"
  "semaphore (foldl cancel_queued m qs) = semaphore m"
  "worker_task (foldl cancel_queued m qs) = worker_task m"
  "running_tasks (foldl cancel_queued m qs) = running_tasks m"
  "task_queue (foldl cancel_queued m qs) = task_queue m"
  by (induction qs arbitrary: m) (simp_all add: cancel_queued_frame)

lemma slots_inv_cancel_all:
  assumes "slots_inv n m" shows "slots_inv n (cancel_all_tasks m)"
proof -
  define m1 where "m1 = cancel_each m (map fst (running_tasks m))"
  have 1: "slots_inv n m1" unfolding m1_def using assms by (rule cancel_each_inv)
  have eq: "cancel_all_tasks m = (foldl cancel_queued m1 (task_queue m1))\<lparr> task_queue := [] \<rparr>"
    by (simp add: cancel_all_tasks_def m1_def cancel_each_def Let_def)
  have f: "held_ids (cancel_all_tasks m) = held_ids m1"
    "running_ids (cancel_all_tasks m) = running_ids m1"
    "queued_ids (cancel_all_tasks m) = []"
    "handles_ok (cancel_all_tasks m) = handles_ok m1"
    "max_concurrent_tasks (cancel_all_tasks m) = max_concurrent_tasks m1"
    "semaphore (cancel_all_tasks m) = semaphore m1"
    by (simp_all add: eq held_ids_def queued_ids_def running_ids_def handles_ok_def
          foldl_cancel_queued_frame)
  have "distinct (held_ids m1 @ queued_ids m1 @ running_ids m1)"
    using 1 by (simp add: slots_inv_def)
  then have "distinct (held_ids m1 @ [] @ running_ids m1)"
    by (rule distinct_shrink) simp_all
  then show ?thesis using 1 by (simp add: slots_inv_def f)
qed

lemma distinct_map_sort_key: "distinct (map f (sort_key g xs)) = distinct (map f xs)"
  by (simp add: distinct_map)

lemma submit_task_full:
  "\<not> int (length (task_queue m)) < max_queue_size m \<Longrightarrow>
     snd (submit_task m tid now c p t_o mr rd cb) = m"
  by (simp add: submit_task_def)

lemma slots_inv_submit:
  assumes "slots_inv n m" "tid \<notin> known_ids m"
  shows "slots_inv n (snd (submit_task m tid now c p t_o mr rd cb))"
proof (cases "int (length (task_queue m)) < max_queue_size m")
  case False
  then show ?thesis using assms by (simp add: submit_task_full)
next
  case True
  let ?m = "snd (submit_task m tid now c p t_o mr rd cb)"
  have fresh: "tid \<notin> set (held_ids m)" "tid \<notin> set (queued_ids m)" "tid \<notin> set (running_ids m)"
    using assms(2)
    by (auto simp: known_ids_def held_ids_def queued_ids_def running_ids_def split: option.splits)
  have s: "set (queued_ids ?m) = insert tid (set (queued_ids m))"
    by (simp add: queued_ids_def submit_queue[OF True] sort_queue_def)
  have "distinct (queued_ids ?m)
        = distinct (map qtask_id (task_queue m @ [new_task m tid now c p t_o mr rd cb]))"
    unfolding queued_ids_def submit_queue[OF True] sort_queue_def
    by (rule distinct_map_sort_key)
  then have d: "distinct (queued_ids ?m)"
    using assms(1) fresh by (simp add: queued_ids_def slots_inv_def)
  have h: "held_ids ?m = held_ids m" "running_ids ?m = running_ids m" "handles_ok ?m = handles_ok m"
    by (simp_all add: held_ids_def running_ids_def handles_ok_def submit_frame)
  show ?thesis
    using assms(1) fresh s d by (auto simp: slots_inv_def h submit_frame)
qed

lemma wrapper_queue:
  "task_queue (execute_queued_task m qt s t c) = task_queue m
   \<or> task_queue (execute_queued_task m qt s t c)
       = qt\<lparr> coro := snd (await_work c qt), retry_count := retry_count qt + 1 \<rparr> # task_queue m"
proof -
  obtain out cs where aw: "await_work c qt = (out, cs)" by (cases "await_work c qt")
  then show ?thesis
    by (cases out; simp add: wrapper_returned wrapper_cancelled wrapper_raised finalize_frame
          notify_frame on_exception_queue)
qed

lemma start_task_ids:
  assumes "qtask_id qt \<notin> set (running_ids m)"
  shows "running_ids (start_task m qt) = running_ids m @ [qtask_id qt]"
    and "held_ids (start_task m qt) = []"
    and "queued_ids (start_task m qt) = queued_ids m"
    and "max_concurrent_tasks (start_task m qt) = max_concurrent_tasks m"
    and "semaphore (start_task m qt) = semaphore m - 1"
  using assms
  by (simp_all add: start_task_def running_ids_def held_ids_def queued_ids_def update_keys del: set_map)

lemma start_task_handles: "handles_ok m \<Longrightarrow> handles_ok (start_task m qt)"
proof -
  assume ok: "handles_ok m"
  have "set (running_tasks (start_task m qt))
          \<subseteq> insert (qtask_id qt, \<lparr> wrapped = qt, cancel_requested = False \<rparr>) (set (running_tasks m))"
    by (simp add: start_task_def set_update_subset)
  then show ?thesis using ok unfolding handles_ok_def by fastforce
qed

lemma slots_inv_start:
  assumes "max_concurrent_tasks m = n" "int (semaphore m) + int (length (running_ids m)) = n"
    "0 < semaphore m" "handles_ok m" "qtask_id qt \<notin> set (running_ids m)"
    "distinct (queued_ids m @ running_ids m @ [qtask_id qt])"
  shows "slots_inv n (start_task m qt)"
  using assms
  by (simp add: slots_inv_def start_task_ids[OF assms(5)] start_task_handles)

lemma slots_inv_process_queue:
  assumes "slots_inv n m" "worker_task m = None"
  shows "slots_inv n (process_queue m)"
proof (cases "int (length (running_tasks m)) \<ge> max_concurrent_tasks m \<or> task_queue m = []")
  case True
  then show ?thesis using assms(1) by (auto simp: process_queue_def)
next
  case False
  then obtain qt rest where q: "task_queue m = qt # rest" by (cases "task_queue m") auto
  let ?m1 = "m\<lparr> task_queue := rest \<rparr>"
  have inv: "max_concurrent_tasks m = n" "int (semaphore m) + int (length (running_ids m)) = n"
    "distinct (queued_ids m @ running_ids m)" "handles_ok m"
    using assms by (simp_all add: slots_inv_def held_ids_def)
  have ids: "queued_ids m = qtask_id qt # queued_ids ?m1" "running_ids ?m1 = running_ids m"
    "handles_ok ?m1 = handles_ok m"
    using q by (simp_all add: queued_ids_def running_ids_def handles_ok_def)
  show ?thesis
  proof (cases "semaphore m = 0")
    case True
    have pq: "process_queue m = ?m1\<lparr> worker_task := Some qt \<rparr>"
      using False q True by (simp add: process_queue_def)
    have f: "held_ids (process_queue m) = [qtask_id qt]"
      "queued_ids (process_queue m) = queued_ids ?m1"
      "running_ids (process_queue m) = running_ids m"
      "handles_ok (process_queue m) = handles_ok m"
      "max_concurrent_tasks (process_queue m) = max_concurrent_tasks m"
      "semaphore (process_queue m) = semaphore m"
      by (simp_all add: pq held_ids_def queued_ids_def running_ids_def handles_ok_def)
    have "distinct ([qtask_id qt] @ queued_ids ?m1 @ running_ids m)"
      using inv(3) ids(1) by auto
    then show ?thesis
      using inv unfolding slots_inv_def f by simp
  next
    case sem: False
    have pq: "process_queue m = start_task ?m1 qt"
      using False q sem by (simp add: process_queue_def)
    have fresh: "qtask_id qt \<notin> set (running_ids ?m1)"
      using inv(3) ids by auto
    have d: "distinct (queued_ids ?m1 @ running_ids ?m1 @ [qtask_id qt])"
      using inv(3) ids by auto
    show ?thesis
      unfolding pq
      by (rule slots_inv_start[OF _ _ _ _ fresh d]) (use inv ids sem in \<open>simp_all add: running_ids_def\<close>)
  qed
qed

lemma slots_inv_resume:
  assumes "slots_inv n m" shows "slots_inv n (resume_acquire m)"
proof (cases "worker_task m")
  case None
  then show ?thesis using assms by (simp add: resume_acquire_def)
next
  case (Some qt)
  show ?thesis
  proof (cases "semaphore m = 0")
    case True
    then show ?thesis using assms Some by (simp add: resume_acquire_def)
  next
    case False
    have inv: "max_concurrent_tasks m = n" "int (semaphore m) + int (length (running_ids m)) = n"
      "distinct ([qtask_id qt] @ queued_ids m @ running_ids m)" "handles_ok m"
      using assms Some by (simp_all add: slots_inv_def held_ids_def)
    have fresh: "qtask_id qt \<notin> set (running_ids m)" using inv(3) by auto
    have d: "distinct (queued_ids m @ running_ids m @ [qtask_id qt])" using inv(3) by auto
    have "slots_inv n (start_task m qt)"
      by (rule slots_inv_start[OF _ _ _ _ fresh d]) (use inv False in simp_all)
    then show ?thesis using Some False by (simp add: resume_acquire_def)
  qed
qed

lemma slots_inv_worker: "slots_inv n m \<Longrightarrow> slots_inv n (queue_worker m)"
  by (cases "worker_task m") (simp_all add: queue_worker_def slots_inv_process_queue slots_inv_resume)

lemma slots_inv_wrapper:
  assumes "slots_inv n m" "(tid, h) \<in> set (running_tasks m)"
  shows "slots_inv n (execute_queued_task m (wrapped h) s t c)"
proof -
  let ?qt = "wrapped h"
  let ?m = "execute_queued_task m ?qt s t c"
  have inv: "max_concurrent_tasks m = n" "int (semaphore m) + int (length (running_ids m)) = n"
    "distinct (held_ids m @ queued_ids m @ running_ids m)" "handles_ok m"
    using assms by (simp_all add: slots_inv_def)
  have id: "qtask_id ?qt = tid" using inv(4) assms(2) by (force simp: handles_ok_def)
  have mem: "tid \<in> set (running_ids m)"
    using assms(2) by (force simp: running_ids_def)
  have r: "running_ids ?m = removeAll tid (running_ids m)"
    by (simp add: running_ids_def wrapper_frame id delete_keys)
  have len: "Suc (length (running_ids ?m)) = length (running_ids m)"
    unfolding r using inv(3) mem by (intro length_removeAll_distinct) simp_all
  have hd: "held_ids ?m = held_ids m" by (rule held_ids_cong) (simp add: wrapper_frame)
  have q: "queued_ids ?m = queued_ids m \<or> queued_ids ?m = tid # queued_ids m"
    using wrapper_queue[of m ?qt s t c] by (auto simp: queued_ids_def id)
  have d: "distinct (held_ids m @ queued_ids ?m @ removeAll tid (running_ids m))"
  proof -
    have a: "tid \<notin> set (held_ids m)" "tid \<notin> set (queued_ids m)"
      using inv(3) mem by auto
    have b: "distinct (held_ids m @ queued_ids m @ removeAll tid (running_ids m))"
      using inv(3) unfolding distinct_append set_append by (auto simp: distinct_removeAll)
    from q show ?thesis
    proof
      assume "queued_ids ?m = queued_ids m" then show ?thesis using b by simp
    next
      assume e: "queued_ids ?m = tid # queued_ids m"
      show ?thesis unfolding e using a b by auto
    qed
  qed
  have ok: "handles_ok ?m"
    using inv(4) set_delete_subset[of "qtask_id ?qt" "running_tasks m"]
    unfolding handles_ok_def wrapper_frame by blast
  show ?thesis
    using inv len d ok unfolding slots_inv_def hd r[symmetric] wrapper_frame
    by (simp add: r)
qed

lemma slots_inv_step: "step m m' \<Longrightarrow> slots_inv n m \<Longrightarrow> slots_inv n m'"
  by (induction rule: step.induct)
    (simp_all add: slots_inv_submit slots_inv_cancel_task slots_inv_cancel_all slots_inv_worker
       slots_inv_wrapper)

lemma slots_inv_init: "init n q d = Inr m \<Longrightarrow> slots_inv n m"
  by (auto simp: init_def slots_inv_def held_ids_def queued_ids_def running_ids_def handles_ok_def
      split: if_splits)

lemma reachable_slots_inv: "reachable n q d m \<Longrightarrow> slots_inv n m"
  by (induction rule: reachable.induct) (simp_all add: slots_inv_init slots_inv_step)


section \<open>The result store\<close>

lemma results_ok_update:
  assumes "list_all (\<lambda>kr. task_id (snd kr) = fst kr \<and> stored_ok (snd kr)) al"
    "task_id r = k" "stored_ok r"
  shows "list_all (\<lambda>kr. task_id (snd kr) = fst kr \<and> stored_ok (snd kr)) (AList.update k r al)"
  using assms set_update_subset[of k r al] unfolding list_all_iff by auto


lemma stored_ok_cancelled: "stored_ok (cancelled_result k)" "task_id (cancelled_result k) = k"
  by (simp_all add: stored_ok_def cancelled_result_def)

lemma results_ok_cancel_task: "results_ok m \<Longrightarrow> results_ok (snd (cancel_task m tid))"
  by (auto simp add: results_ok_def cancel_task_def Let_def notify_frame results_ok_update
        stored_ok_cancelled split: option.splits)

lemma results_ok_cancel_each: "results_ok m \<Longrightarrow> results_ok (cancel_each m ks)"
  unfolding cancel_each_def
  by (induction ks arbitrary: m) (simp_all add: results_ok_cancel_task)

lemma results_ok_cancel_queued: "results_ok m \<Longrightarrow> results_ok (cancel_queued m q)"
  by (simp add: results_ok_def cancel_queued_def Let_def notify_frame results_ok_update
        stored_ok_cancelled)

lemma results_ok_foldl_cancel_queued: "results_ok m \<Longrightarrow> results_ok (foldl cancel_queued m qs)"
  by (induction qs arbitrary: m) (simp_all add: results_ok_cancel_queued)

lemma results_ok_cancel_all: "results_ok m \<Longrightarrow> results_ok (cancel_all_tasks m)"
proof -
  assume a: "results_ok m"
  define m1 where "m1 = cancel_each m (map fst (running_tasks m))"
  have "results_ok (foldl cancel_queued m1 (task_queue m1))"
    unfolding m1_def using a by (intro results_ok_foldl_cancel_queued results_ok_cancel_each)
  then show ?thesis
    by (simp add: cancel_all_tasks_def m1_def cancel_each_def Let_def results_ok_def)
qed

lemma results_ok_submit: "results_ok m \<Longrightarrow> results_ok (snd (submit_task m tid now c p t_o mr rd cb))"
  by (simp add: results_ok_def submit_frame)

lemma results_ok_worker: "results_ok m \<Longrightarrow> results_ok (queue_worker m)"
  by (simp add: results_ok_def queue_worker_def process_queue_def resume_acquire_def start_task_def
        Let_def split: option.splits list.splits)

lemma wrapper_results:
  "\<exists>r. task_results (execute_queued_task m qt s t c) = AList.update (qtask_id qt) r (task_results m)
     \<and> task_id r = qtask_id qt \<and> stored_ok r"
proof -
  obtain out cs where aw: "await_work c qt = (out, cs)" by (cases "await_work c qt")
  show ?thesis
  proof (cases out)
    case (Returned v)
    have "stored_ok (completed_result (qtask_id qt) v s t)"
      "task_id (completed_result (qtask_id qt) v s t) = qtask_id qt"
      by (simp_all add: stored_ok_def completed_result_def)
    then show ?thesis
      using aw Returned by (auto simp add: wrapper_returned finalize_frame notify_frame)
  next
    case (Raised e)
    have "stored_ok (failed_result (qtask_id qt) e s t)"
      "task_id (failed_result (qtask_id qt) e s t) = qtask_id qt"
      by (simp_all add: stored_ok_def failed_result_def)
    then show ?thesis
      using aw Raised by (auto simp add: wrapper_raised finalize_frame on_exception_frame notify_frame)
  next
    case CancelledError
    have "stored_ok ((running_result (qtask_id qt) s)\<lparr> status := CANCELLED \<rparr>)"
      "task_id ((running_result (qtask_id qt) s)\<lparr> status := CANCELLED \<rparr>) = qtask_id qt"
      by (simp_all add: stored_ok_def running_result_def)
    then show ?thesis
      using aw CancelledError by (auto simp add: wrapper_cancelled finalize_frame notify_frame)
  qed
qed

lemma results_ok_wrapper: "results_ok m \<Longrightarrow> results_ok (execute_queued_task m qt s t c)"
  using wrapper_results[of m qt s t c] by (auto simp: results_ok_def results_ok_update)


lemma results_ok_step: "step m m' \<Longrightarrow> results_ok m \<Longrightarrow> results_ok m'"
  by (induction rule: step.induct)
    (simp_all add: results_ok_submit results_ok_cancel_task results_ok_cancel_all
       results_ok_worker results_ok_wrapper)

lemma results_ok_reachable: "reachable n q d m \<Longrightarrow> results_ok m"
proof (induction rule: reachable.induct)
  case (initial m)
  then show ?case by (auto simp: init_def results_ok_def split: if_splits)
next
  case (after m m')
  then show ?case by (simp add: results_ok_step)
qed


section \<open>Waiting for a result\<close>

lemma wait_loop_result:
  "wait_loop fuel E tid t_o start w = Some (Inr r, w') \<Longrightarrow>
     map_of (task_results (mgr w')) tid = Some r"
  by (induction fuel arbitrary: w) (auto split: option.splits if_splits)

lemma wait_loop_no_timeout:
  "wait_loop fuel E tid None start w = Some (x, w') \<Longrightarrow> \<exists>r. x = Inr r"
  by (induction fuel arbitrary: w) (auto simp: truthy_def split: option.splits if_splits)

lemma wait_loop_returns:
  assumes "map_of (task_results (mgr ((poll E ^^ k) w))) tid \<noteq> None" "k < fuel"
  shows "\<exists>j r. j \<le> k \<and> wait_loop fuel E tid None start w = Some (Inr r, (poll E ^^ j) w)"
  using assms
proof (induction fuel arbitrary: w k)
  case 0
  then show ?case by simp
next
  case (Suc fuel)
  show ?case
  proof (cases "map_of (task_results (mgr w)) tid")
    case (Some r)
    then have "wait_loop (Suc fuel) E tid None start w = Some (Inr r, (poll E ^^ 0) w)" by simp
    then show ?thesis by blast
  next
    case None
    with Suc.prems(1) obtain k' where k: "k = Suc k'" by (cases k) auto
    have "map_of (task_results (mgr ((poll E ^^ k') (poll E w)))) tid \<noteq> None"
      using Suc.prems(1) by (simp add: k funpow_swap1)
    moreover have "k' < fuel" using Suc.prems(2) k by simp
    ultimately obtain j r where "j \<le> k'"
      "wait_loop fuel E tid None start (poll E w) = Some (Inr r, (poll E ^^ j) (poll E w))"
      using Suc.IH by blast
    then have "Suc j \<le> k \<and> wait_loop (Suc fuel) E tid None start w = Some (Inr r, (poll E ^^ Suc j) w)"
      using None k by (simp add: truthy_def funpow_swap1)
    then show ?thesis by blast
  qed
qed

lemma submit_accepted:
  "int (length (task_queue m)) < max_queue_size m \<Longrightarrow>
     fst (submit_task m tid now c p t_o mr rd cb) = Inr tid"
  by (simp add: submit_task_def Let_def)

lemma execute_task_accepted:
  assumes "int (length (task_queue (mgr w))) < max_queue_size (mgr w)"
  shows "execute_task fuel E w c p t_o =
     (case wait_for_task fuel E (uuid4 E (drawn w)) None (submitted E w c p t_o) of
        None \<Rightarrow> None
      | Some (Inl e, w1) \<Rightarrow> Some (Inl e, w1)
      | Some (Inr r, w1) \<Rightarrow>
          if status r = FAILED \<and> error_truthy (error r) then Some (Inl (the (error r)), w1)
          else Some (Inr (result r), w1))"
proof -
  obtain x m1 where s: "submit_task (mgr w) (uuid4 E (drawn w)) (clock E (tick w)) c p t_o 0 1 None = (x, m1)"
    by (cases "submit_task (mgr w) (uuid4 E (drawn w)) (clock E (tick w)) c p t_o 0 1 None")
  have x: "x = Inr (uuid4 E (drawn w))" using submit_accepted[OF assms, of "uuid4 E (drawn w)" "clock E (tick w)" c p t_o 0 1 None] s by simp
  have w1: "submitted E w c p t_o = w\<lparr> drawn := drawn w + 1, mgr := m1 \<rparr>"
    using s by (simp add: submitted_def)
  show ?thesis
    by (simp add: execute_task_def Let_def s x w1)
qed



lemma execute_task_verdict:
  assumes "int (length (task_queue (mgr w))) < max_queue_size (mgr w)"
    and "map_of (task_results (mgr ((poll E ^^ k) (submitted E w c p t_o)))) (uuid4 E (drawn w)) \<noteq> None"
    and "k < fuel"
  shows "\<exists>res w' r. execute_task fuel E w c p t_o = Some (res, w')
           \<and> map_of (task_results (mgr w')) (uuid4 E (drawn w)) = Some r
           \<and> ((\<exists>e. res = Inl e) \<longleftrightarrow> status r = FAILED \<and> error_truthy (error r))
           \<and> (\<forall>e. res = Inl e \<longrightarrow> error r = Some e)
           \<and> (\<not> (status r = FAILED \<and> error_truthy (error r)) \<longrightarrow> res = Inr (result r))"
proof -
  let ?tid = "uuid4 E (drawn w)"
  let ?w1 = "submitted E w c p t_o"
  from wait_loop_returns[OF assms(2,3), of "clock E (tick ?w1)"]
  obtain j r where wl: "wait_for_task fuel E ?tid None ?w1 = Some (Inr r, (poll E ^^ j) ?w1)"
    by (auto simp: wait_for_task_def)
  let ?w' = "(poll E ^^ j) ?w1"
  have look: "map_of (task_results (mgr ?w')) ?tid = Some r"
    using wl by (auto simp: wait_for_task_def dest: wait_loop_result)
  show ?thesis
  proof (cases "status r = FAILED \<and> error_truthy (error r)")
    case True
    then have "execute_task fuel E w c p t_o = Some (Inl (the (error r)), ?w')"
      by (simp add: execute_task_accepted[OF assms(1)] wl)
    moreover have "error r = Some (the (error r))"
      using True by (cases "error r") (simp_all add: error_truthy_def)
    ultimately show ?thesis using True look by auto
  next
    case False
    then have "execute_task fuel E w c p t_o = Some (Inr (result r), ?w')"
      by (simp add: execute_task_accepted[OF assms(1)] wl)
    then show ?thesis using False look by auto
  qed
qed








lemma wait_loop_caller:
  "wait_loop fuel E tid t_o start w = Some (x, w') \<Longrightarrow>
     drawn w' = drawn w \<and> made w' = made w \<and> (\<exists>p. slept w' = slept w @ replicate p (1 / 10))"
proof (induction fuel arbitrary: w)
  case 0
  then show ?case by simp
next
  case (Suc fuel)
  show ?case
  proof (cases "map_of (task_results (mgr w)) tid")
    case (Some r)
    then have "w' = w" using Suc.prems by simp
    then show ?thesis by simp
  next
    case None
    show ?thesis
    proof (cases "truthy t_o \<and> clock E (tick w) - start > the t_o")
      case True
      then have "w' = w" using Suc.prems None by simp
      then show ?thesis by simp
    next
      case False
      then have "wait_loop fuel E tid t_o start (poll E w) = Some (x, w')"
        using Suc.prems None by auto
      from Suc.IH[OF this] obtain p where
        "drawn w' = drawn w" "made w' = made w" "slept w' = slept w @ replicate (Suc p) (1 / 10)"
        by (auto simp add: suspend_def replicate_app_Cons_same)
      then show ?thesis by blast
    qed
  qed
qed

lemma execute_task_caller:
  assumes "execute_task fuel E w c p t_o = Some (x, w')"
  shows "drawn w' = drawn w + 1 \<and> made w' = made w
       \<and> (\<exists>n. slept w' = slept w @ replicate n (1 / 10))"
proof -
  obtain y m1 where s: "submit_task (mgr w) (uuid4 E (drawn w)) (clock E (tick w)) c p t_o 0 1 None = (y, m1)"
    by (cases "submit_task (mgr w) (uuid4 E (drawn w)) (clock E (tick w)) c p t_o 0 1 None")
  show ?thesis
  proof (cases y)
    case (Inl e)
    then have "w' = w\<lparr> drawn := drawn w + 1, mgr := m1 \<rparr>"
      using assms s by (simp add: execute_task_def Let_def)
    then show ?thesis by simp
  next
    case (Inr tid)
    let ?w1 = "w\<lparr> drawn := drawn w + 1, mgr := m1 \<rparr>"
    from assms s Inr obtain z where
      "wait_for_task fuel E tid None ?w1 = Some (z, w')"
      by (auto simp add: execute_task_def Let_def split: option.splits sum.splits if_splits)
    from wait_loop_caller[OF this[unfolded wait_for_task_def]] show ?thesis by simp
  qed
qed

section \<open>The retry loop of \<open>execute_with_retry\<close>\<close>

lemma spec_attempt_caller:
  "spec_attempt fuel E factory rd b t_o w n = Some (res, w') \<Longrightarrow>
     made w' = made w + Suc n \<and> drawn w' = drawn w + Suc n
     \<and> (\<exists>ps. slept w' = slept w @ sleep_log ps rd b n)"
proof (induction n arbitrary: res w')
  case 0
  from execute_task_caller[OF 0[simplified]] obtain p where
    "drawn w' = drawn w + 1" "made w' = made w + 1" "slept w' = slept w @ replicate p (1 / 10)"
    by auto
  then have "made w' = made w + Suc 0 \<and> drawn w' = drawn w + Suc 0
     \<and> slept w' = slept w @ sleep_log (\<lambda>k. p) rd b 0"
    by (simp add: sleep_log_def)
  then show ?case by blast
next
  case (Suc n)
  from Suc.prems obtain e w1 where
    a: "spec_attempt fuel E factory rd b t_o w n = Some (Inl e, w1)"
    and x: "execute_task fuel E ((suspend E (rd * b ^ n) w1)\<lparr> made := made w + Suc n + 1 \<rparr>)
              (factory (made w + Suc n)) MEDIUM t_o = Some (res, w')"
    by (auto split: option.splits sum.splits)
  from Suc.IH[OF a] obtain ps where
    ih: "made w1 = made w + Suc n" "drawn w1 = drawn w + Suc n"
        "slept w1 = slept w @ sleep_log ps rd b n" by blast
  from execute_task_caller[OF x] obtain p where
    f: "drawn w' = drawn w1 + 1" "made w' = made w + Suc n + 1"
       "slept w' = slept w1 @ [rd * b ^ n] @ replicate p (1 / 10)"
    by (auto simp add: suspend_def)
  let ?ps = "ps(Suc n := p)"
  have e: "concat (map (\<lambda>k. replicate (if k = Suc n then p else ps k) (1 / 10)
                              @ (if k < Suc n then [rd * b ^ k] else [])) [0..<n])
          = concat (map (\<lambda>k. replicate (ps k) (1 / 10) @ (if k < n then [rd * b ^ k] else []))
                      [0..<n])"
    by (rule arg_cong[where f = concat], rule map_cong) auto
  have "sleep_log ?ps rd b (Suc n) = sleep_log ps rd b n @ [rd * b ^ n] @ replicate p (1 / 10)"
    by (simp add: sleep_log_def e)
  then have "slept w' = slept w @ sleep_log ?ps rd b (Suc n)"
    using f ih by simp
  then show ?case using f ih by auto
qed

lemma retry_loop_attempts:
  fixes M :: nat
  assumes ends: "\<forall>k \<le> M. (\<forall>i<k. spec_attempt_fails fuel E factory rd b t_o w i)
                   \<longrightarrow> spec_attempt fuel E factory rd b t_o w k \<noteq> None"
  shows "j \<le> M \<Longrightarrow> \<forall>i<j. spec_attempt_fails fuel E factory rd b t_o w i \<Longrightarrow>
     execute_task fuel E (wj\<lparr> made := made wj + 1 \<rparr>) (factory (made wj)) MEDIUM t_o
       = spec_attempt fuel E factory rd b t_o w j \<Longrightarrow>
     cur = rd * b ^ j \<Longrightarrow>
     \<exists>n res w'. j \<le> n \<and> n \<le> M
       \<and> retry_loop fuel E factory (int M) b t_o [int j..int M] le cur wj = Some (res, w')
       \<and> spec_attempt fuel E factory rd b t_o w n = Some (res, w')
       \<and> ((\<exists>e. res = Inl e) \<longrightarrow> n = M)"
proof (induction "M - j" arbitrary: j wj cur le)
  case 0
  then have jM: "j = M" by simp
  have l: "[int j..int M] = [int M]" using jM by simp
  from ends 0(3) jM obtain x w1 where a: "spec_attempt fuel E factory rd b t_o w M = Some (x, w1)"
    by (metis le_refl option.exhaust surj_pair)
  have ex: "execute_task fuel E (wj\<lparr> made := made wj + 1 \<rparr>) (factory (made wj)) MEDIUM t_o
              = Some (x, w1)"
    using 0(4) a jM by simp
  have "retry_loop fuel E factory (int M) b t_o [int j..int M] le cur wj = Some (x, w1)"
    by (cases x) (simp_all add: l ex[simplified] Let_def)
  then show ?case using a jM by auto
next
  case (Suc d)
  then have jM: "j < M" by simp
  then have l: "[int j..int M] = int j # [int (Suc j)..int M]"
    by (simp add: upto_rec1 add.commute)
  from ends Suc.prems(2) jM obtain x w1 where
    a: "spec_attempt fuel E factory rd b t_o w j = Some (x, w1)"
    by (metis less_imp_le option.exhaust surj_pair)
  have ex: "execute_task fuel E (wj\<lparr> made := made wj + 1 \<rparr>) (factory (made wj)) MEDIUM t_o
              = Some (x, w1)"
    using Suc.prems(3) a by simp
  show ?case
  proof (cases x)
    case (Inr v)
    then have "retry_loop fuel E factory (int M) b t_o [int j..int M] le cur wj = Some (Inr v, w1)"
      by (simp add: l ex[simplified] Let_def)
    then show ?thesis using a Inr jM by auto
  next
    case (Inl e)
    let ?w2 = "suspend E cur w1"
    have step: "retry_loop fuel E factory (int M) b t_o [int j..int M] le cur wj
                  = retry_loop fuel E factory (int M) b t_o [int (Suc j)..int M] (Some e)
                      (cur * b) ?w2"
      using jM by (simp add: l ex[simplified] Inl Let_def)
    have m1: "made w1 = made w + Suc j"
      using spec_attempt_caller[OF a] by simp
    have fl: "\<forall>i<Suc j. spec_attempt_fails fuel E factory rd b t_o w i"
      using Suc.prems(2) a Inl by (auto simp add: spec_attempt_fails_def less_Suc_eq)
    have nxt: "execute_task fuel E (?w2\<lparr> made := made ?w2 + 1 \<rparr>) (factory (made ?w2)) MEDIUM t_o
                 = spec_attempt fuel E factory rd b t_o w (Suc j)"
      using a Inl m1 Suc.prems(4) by (simp add: suspend_def)
    have "d = M - Suc j" using Suc.hyps(2) by simp
    from Suc.hyps(1)[OF this _ fl nxt, of "cur * b" "Some e"] jM Suc.prems(4)
    obtain n res w' where "Suc j \<le> n" "n \<le> M"
      "retry_loop fuel E factory (int M) b t_o [int (Suc j)..int M] (Some e) (cur * b) ?w2
         = Some (res, w')"
      "spec_attempt fuel E factory rd b t_o w n = Some (res, w')" "(\<exists>e. res = Inl e) \<longrightarrow> n = M"
      by auto
    then show ?thesis unfolding step by (intro exI[of _ n] exI[of _ res] exI[of _ w']) simp
  qed
qed

section \<open>Cancelling the rest of a group\<close>















section \<open>Groups of tasks\<close>



lemmas run_defs = execute_task_group_def example_group_def example_env_def example_world_def
  example_single_def init_def submit_task_def Let_def sort_queue_def truthy_def wait_for_task_def
  suspend_def serial_cycle_def queue_worker_def process_queue_def start_task_def
  execute_queued_task_def await_work_def on_exception_def finalize_def notify_callbacks_def
  cancel_each_def cancel_task_def cancelled_result_def update_average_execution_time_def








lemmas caller_defs = execute_task_def wait_for_task_def suspend_def example_env_def
  example_world_def example_single_def init_def submit_task_def Let_def sort_queue_def truthy_def
  serial_cycle_def queue_worker_def process_queue_def start_task_def
  execute_queued_task_def await_work_def on_exception_def finalize_def notify_callbacks_def
  update_average_execution_time_def error_truthy_def

lemmas retry_defs = execute_with_retry_def caller_defs example_factory_def
  example_failing_factory_def failed_result_def completed_result_def


section \<open>Every run with a single slot\<close>








lemma serial_cycle_progress: "progress\<^sup>*\<^sup>* m (serial_cycle st m)"
proof (cases "running_tasks (queue_worker m)")
  case Nil
  then have "serial_cycle st m = queue_worker m" by (simp add: serial_cycle_def)
  moreover have "progress\<^sup>*\<^sup>* m (queue_worker m)"
    by (rule r_into_rtranclp) (rule progress.worker)
  ultimately show ?thesis by simp
next
  case (Cons a rest)
  obtain tid h where a: "a = (tid, h)" by (cases a)
  let ?c = "if cancel_requested h then CancelledAtWork else NotCancelled"
  have e: "serial_cycle st m = execute_queued_task (queue_worker m) (wrapped h) (fst st) (snd st) ?c"
    unfolding serial_cycle_def Let_def Cons a by simp
  have mem: "(tid, h) \<in> set (running_tasks (queue_worker m))"
    unfolding Cons a by simp
  have c: "?c \<noteq> NotCancelled \<longrightarrow> cancel_requested h" by simp
  have "progress (queue_worker m) (execute_queued_task (queue_worker m) (wrapped h) (fst st) (snd st) ?c)"
    using mem c by (rule progress.wrapper)
  moreover have "progress\<^sup>*\<^sup>* m (queue_worker m)"
    by (rule r_into_rtranclp) (rule progress.worker)
  ultimately show ?thesis unfolding e
    by (rule rtranclp.rtrancl_into_rtrancl[rotated])
qed

lemma run_serial_progress: "progress\<^sup>*\<^sup>* m (run_serial ts m)"
proof (induction ts arbitrary: m)
  case Nil
  show ?case by simp
next
  case (Cons st ts)
  have "progress\<^sup>*\<^sup>* (serial_cycle st m) (run_serial ts (serial_cycle st m))" by (rule Cons.IH)
  with serial_cycle_progress[of m st] have "progress\<^sup>*\<^sup>* m (run_serial ts (serial_cycle st m))"
    by (rule rtranclp_trans)
  then show ?case by simp
qed


section \<open>Every run of a retried task\<close>

lemma incarnation_id [simp]: "qtask_id (incarnation q n) = qtask_id q"
  by (induction n) simp_all

lemma attempts_ids:
  "attempts m tid = length (filter (\<lambda>i. i = tid) (map task_id (task_history m)))"
  by (simp add: attempts_def filter_map comp_def)

lemma wrapper_attempts:
  "attempts (execute_queued_task m qt s t c) tid
     = attempts m tid + (if qtask_id qt = tid then 1 else 0)"
  by (simp add: attempts_ids wrapper_history_ids)

lemma wrapper_queue_retries:
  "task_queue (execute_queued_task m qt s t NotCancelled)
     = (if retries qt
        then qt\<lparr> coro := snd (await_coro (coro qt)), retry_count := retry_count qt + 1 \<rparr>
               # task_queue m
        else task_queue m)"
proof -
  obtain out cs where aw: "await_coro (coro qt) = (out, cs)" by (cases "await_coro (coro qt)")
  then show ?thesis
    by (cases out; simp add: wrapper_returned wrapper_cancelled wrapper_raised
          await_work_uncancelled finalize_frame notify_frame on_exception_queue retries_def)
qed

lemma wrapper_result_status:
  "case map_of (task_results (execute_queued_task m qt s t NotCancelled)) (qtask_id qt) of
     None \<Rightarrow> False
   | Some r \<Rightarrow> status r = outcome_status (fst (await_coro (coro qt)))
               \<and> (status r = COMPLETED \<longrightarrow> fst (await_coro (coro qt)) = Returned (result r))"
proof -
  obtain out cs where aw: "await_coro (coro qt) = (out, cs)" by (cases "await_coro (coro qt)")
  then show ?thesis
    by (cases out; simp add: wrapper_returned wrapper_cancelled wrapper_raised
          await_work_uncancelled finalize_frame notify_frame on_exception_frame update_conv'
          completed_result_def failed_result_def running_result_def)
qed

lemma retry_stage_worker:
  assumes "retry_stage q K base n busy m"
  shows "\<exists>busy'. retry_stage q K base n busy' (queue_worker m)"
proof (cases "busy \<or> \<not> n < K")
  case True
  have "task_queue m = []"
    using assms True by (cases busy) (simp_all add: retry_stage_def)
  then have "queue_worker m = m"
    using assms by (simp add: retry_stage_def queue_worker_def process_queue_def)
  then show ?thesis using assms by auto
next
  case False
  then have f: "worker_task m = None" "0 < max_concurrent_tasks m" "running_tasks m = []"
    "0 < semaphore m" "task_queue m = [incarnation q n]" "n < K"
    using assms by (simp_all add: retry_stage_def)
  have qw: "queue_worker m = start_task (m\<lparr> task_queue := [] \<rparr>) (incarnation q n)"
    using f by (simp add: queue_worker_def process_queue_def)
  have "retry_stage q K base n True (queue_worker m)"
    using assms False f unfolding qw retry_stage_def
    by (simp add: start_task_def attempts_def)
  then show ?thesis by blast
qed

lemma retry_stage_wrapper:
  assumes st: "retry_stage q K base n busy m" and mem: "(tid, h) \<in> set (running_tasks m)"
    and c: "c \<noteq> NotCancelled \<longrightarrow> cancel_requested h"
    and A1: "\<forall>j. Suc j < K \<longrightarrow> retries (incarnation q j)"
    and A2: "\<not> retries (incarnation q (K - 1))"
  shows "retry_stage q K base (Suc n) False (execute_queued_task m (wrapped h) s t c)"
proof -
  have b: busy using st mem by (cases busy) (simp_all add: retry_stage_def)
  then have f: "worker_task m = None" "0 < max_concurrent_tasks m" "n < K" "task_queue m = []"
    "running_tasks m = [(qtask_id q, \<lparr> wrapped = incarnation q n, cancel_requested = False \<rparr>)]"
    "attempts m (qtask_id q) = base + n"
    using st by (simp_all add: retry_stage_def)
  have h: "wrapped h = incarnation q n" "c = NotCancelled" using mem f(5) c by auto
  let ?m = "execute_queued_task m (incarnation q n) s t NotCancelled"
  have q: "task_queue ?m = (if Suc n < K then [incarnation q (Suc n)] else [])"
  proof (cases "Suc n < K")
    case True
    then show ?thesis using A1 f(4) by (simp add: wrapper_queue_retries)
  next
    case False
    then have "K - 1 = n" using f(3) by simp
    then show ?thesis using A2 False f(4) by (simp add: wrapper_queue_retries)
  qed
  have r: "case map_of (task_results ?m) (qtask_id q) of
             None \<Rightarrow> False
           | Some r \<Rightarrow> status r = outcome_status (fst (await_coro (coro (incarnation q n))))
               \<and> (status r = COMPLETED \<longrightarrow>
                     fst (await_coro (coro (incarnation q n))) = Returned (result r))"
    using wrapper_result_status[where m = m and qt = "incarnation q n" and s = s and t = t] by simp
  show ?thesis
    unfolding h retry_stage_def diff_Suc_1
    using f q r by (simp add: wrapper_frame wrapper_attempts)
qed

lemma retry_stage_progress:
  assumes "progress m m'" "retry_stage q K base n busy m"
    "\<forall>j. Suc j < K \<longrightarrow> retries (incarnation q j)" "\<not> retries (incarnation q (K - 1))"
  shows "\<exists>n' busy'. retry_stage q K base n' busy' m'"
  using assms
proof (induction rule: progress.induct)
  case (worker m)
  from retry_stage_worker[OF worker(1)] show ?case by blast
next
  case (wrapper tid h m c start_t end_t)
  from retry_stage_wrapper[OF wrapper(3) wrapper(1) wrapper(2) wrapper(4) wrapper(5)]
  show ?case by blast
qed

lemma retry_stage_run:
  assumes "progress\<^sup>*\<^sup>* m m'" "retry_stage q K base n busy m"
    "\<forall>j. Suc j < K \<longrightarrow> retries (incarnation q j)" "\<not> retries (incarnation q (K - 1))"
  shows "\<exists>n' busy'. retry_stage q K base n' busy' m'"
  using assms
proof (induction rule: rtranclp_induct)
  case base
  then show ?case by blast
next
  case (step y z)
  then obtain n' busy' where "retry_stage q K base n' busy' y" by blast
  from retry_stage_progress[OF step(2) this step(5,6)] show ?case .
qed

lemma retry_stage_final:
  assumes "retry_stage q K base n busy m" "0 < K"
  shows "attempts m (qtask_id q) \<le> base + K
       \<and> (idle m \<longrightarrow> attempts m (qtask_id q) = base + K
            \<and> (case map_of (task_results m) (qtask_id q) of
                  None \<Rightarrow> False
                | Some r \<Rightarrow>
                    status r = outcome_status (fst (await_coro (coro (incarnation q (K - 1)))))
                    \<and> (status r = COMPLETED \<longrightarrow>
                          fst (await_coro (coro (incarnation q (K - 1)))) = Returned (result r))))"
proof (cases busy)
  case True
  then show ?thesis using assms by (simp add: retry_stage_def idle_def)
next
  case False
  show ?thesis
  proof (cases "n < K")
    case True
    then show ?thesis using assms False by (simp add: retry_stage_def idle_def)
  next
    case nK: False
    then have "n = K" using assms False by (simp add: retry_stage_def)
    then show ?thesis using assms False by (simp add: retry_stage_def)
  qed
qed

lemma retried_task_runs:
  assumes i: "idle m" "0 < max_concurrent_tasks m" "0 < semaphore m" "0 < max_queue_size m"
    and q: "q = new_task m tid now c p t_o mr rd cb"
    and A1: "\<forall>j. Suc j < K \<longrightarrow> retries (incarnation q j)"
    and A2: "\<not> retries (incarnation q (K - 1))" and K: "0 < K"
    and run: "progress\<^sup>*\<^sup>* (snd (submit_task m tid now c p t_o mr rd cb)) m'"
  shows "attempts m' tid \<le> attempts m tid + K
       \<and> (idle m' \<longrightarrow> attempts m' tid = attempts m tid + K
            \<and> (\<exists>r. map_of (task_results m') tid = Some r
                 \<and> status r = outcome_status (fst (await_coro (coro (incarnation q (K - 1)))))
                 \<and> (status r = COMPLETED \<longrightarrow>
                       fst (await_coro (coro (incarnation q (K - 1)))) = Returned (result r))))"
proof -
  define m1 where "m1 = snd (submit_task m tid now c p t_o mr rd cb)"
  have e: "task_queue m = []" "running_tasks m = []" "worker_task m = None"
    using i by (simp_all add: idle_def)
  have lt: "int (length (task_queue m)) < max_queue_size m" using i e by simp
  have id: "qtask_id q = tid" by (simp add: q new_task_def)
  have "task_queue m1 = [q]"
    using e by (simp add: m1_def submit_queue[OF lt] q sort_queue_def)
  then have "retry_stage q K (attempts m tid) 0 False m1"
    using i e K by (simp add: retry_stage_def m1_def submit_frame attempts_def id)
  from retry_stage_run[OF run[folded m1_def] this A1 A2]
  obtain n' busy' where "retry_stage q K (attempts m tid) n' busy' m'" by blast
  from retry_stage_final[OF this K] show ?thesis
    unfolding id by (auto split: option.splits)
qed

lemma retry_twice_then_return:
  assumes "idle m" "0 < max_concurrent_tasks m" "0 < semaphore m" "0 < max_queue_size m"
    and "progress\<^sup>*\<^sup>* (snd (submit_task m tid now (Raised e1 # Raised e2 # Returned v # cs) p t_o 2 rd cb)) m'"
  shows "attempts m' tid \<le> attempts m tid + 3
       \<and> (idle m' \<longrightarrow> attempts m' tid = attempts m tid + 3
            \<and> (\<exists>r. map_of (task_results m') tid = Some r \<and> status r = COMPLETED \<and> result r = v))"
proof -
  define q where "q = new_task m tid now (Raised e1 # Raised e2 # Returned v # cs) p t_o 2 rd cb"
  have f: "coro q = Raised e1 # Raised e2 # Returned v # cs" "retry_count q = 0"
    "max_retries q = 2"
    by (simp_all add: q_def new_task_def)
  have r0: "retries (incarnation q 0)" by (simp add: retries_def f)
  have r1: "retries (incarnation q (Suc 0))" by (simp add: retries_def f)
  have r2: "\<not> retries (incarnation q (3 - 1))"
    by (simp add: retries_def f numeral_2_eq_2)
  have l2: "fst (await_coro (coro (incarnation q (3 - 1)))) = Returned v"
    by (simp add: f numeral_2_eq_2)
  have A1: "\<forall>j. Suc j < 3 \<longrightarrow> retries (incarnation q j)"
  proof (intro allI impI)
    fix j :: nat assume "Suc j < 3"
    then have "j = 0 \<or> j = Suc 0" by arith
    then show "retries (incarnation q j)" using r0 r1 by auto
  qed
  from retried_task_runs[OF assms(1-4) q_def A1 r2 _ assms(5)] show ?thesis
    unfolding l2 by auto
qed

lemma retry_always_raise:
  assumes "idle m" "0 < max_concurrent_tasks m" "0 < semaphore m" "0 < max_queue_size m"
    and fs: "\<forall>out\<in>set fs. \<exists>e. out = Raised e"
    and "progress\<^sup>*\<^sup>* (snd (submit_task m tid now fs p t_o 2 rd cb)) m'"
  shows "attempts m' tid \<le> attempts m tid + 3
       \<and> (idle m' \<longrightarrow> attempts m' tid = attempts m tid + 3
            \<and> (\<exists>r. map_of (task_results m') tid = Some r \<and> status r = FAILED))"
proof -
  from await_all_raised[OF fs] obtain e1 r1 where
    w1: "await_coro fs = (Raised e1, r1)" and f1: "\<forall>out\<in>set r1. \<exists>e. out = Raised e" by blast
  from await_all_raised[OF f1] obtain e2 r2 where
    w2: "await_coro r1 = (Raised e2, r2)" and f2: "\<forall>out\<in>set r2. \<exists>e. out = Raised e" by blast
  from await_all_raised[OF f2] obtain e3 r3 where
    w3: "await_coro r2 = (Raised e3, r3)" by blast
  define q where "q = new_task m tid now fs p t_o 2 rd cb"
  have f: "coro q = fs" "retry_count q = 0" "max_retries q = 2"
    by (simp_all add: q_def new_task_def)
  have r0: "retries (incarnation q 0)" by (simp add: retries_def f w1)
  have r1: "retries (incarnation q (Suc 0))" by (simp add: retries_def f w1 w2)
  have r2: "\<not> retries (incarnation q (3 - 1))"
    by (simp add: retries_def f numeral_2_eq_2 w1 w2 w3)
  have l2: "fst (await_coro (coro (incarnation q (3 - 1)))) = Raised e3"
    by (simp add: f numeral_2_eq_2 w1 w2 w3)
  have A1: "\<forall>j. Suc j < 3 \<longrightarrow> retries (incarnation q j)"
  proof (intro allI impI)
    fix j :: nat assume "Suc j < 3"
    then have "j = 0 \<or> j = Suc 0" by arith
    then show "retries (incarnation q j)" using r0 r1 by auto
  qed
  from retried_task_runs[OF assms(1-4) q_def A1 r2 _ assms(6)] show ?thesis
    unfolding l2 by auto
qed

lemma retry_serial_run:
  assumes "idle m" "0 < max_concurrent_tasks m" "0 < semaphore m" "0 < max_queue_size m"
  shows "(let m1 = snd (submit_task m tid now (Raised e1 # Raised e2 # Returned v # cs) p t_o 2 rd cb);
              m' = run_serial [(s1, t1), (s2, t2), (s3, t3)] m1
          in map_of (task_results m') tid = Some (completed_result tid v s3 t3)
           \<and> attempts m' tid = attempts m tid + 3 \<and> run_serial ts m' = m')
       \<and> ((\<forall>out\<in>set fs. \<exists>e. out = Raised e) \<longrightarrow>
          (let m1 = snd (submit_task m tid now fs p t_o 2 rd cb);
               m' = run_serial [(s1, t1), (s2, t2), (s3, t3)] m1
           in (\<exists>e. map_of (task_results m') tid = Some (failed_result tid e s3 t3))
            \<and> attempts m' tid = attempts m tid + 3 \<and> run_serial ts m' = m'))"
proof (intro conjI impI)
  have q: "int (length (task_queue m)) < max_queue_size m" using assms by (simp add: idle_def)
  have i: "task_queue m = []" "running_tasks m = []" "worker_task m = None"
    using assms by (simp_all add: idle_def)
  {
    fix c :: "'a coroutine"
    define m1 where "m1 = snd (submit_task m tid now c p t_o 2 rd cb)"
    have "task_queue m1 = [new_task m tid now c p t_o 2 rd cb]" "running_tasks m1 = []"
      "worker_task m1 = None" "0 < max_concurrent_tasks m1" "0 < semaphore m1"
      "task_results m1 = task_results m" "task_history m1 = task_history m"
      using assms i by (simp_all add: m1_def submit_queue[OF q] submit_frame)
  } note sub = this
  {
    define m1 where "m1 = snd (submit_task m tid now (Raised e1 # Raised e2 # Returned v # cs) p t_o 2 rd cb)"
    define m2 where "m2 = serial_cycle (s1, t1) m1"
    define m3 where "m3 = serial_cycle (s2, t2) m2"
    define m4 where "m4 = serial_cycle (s3, t3) m3"
    note a = sub[of "Raised e1 # Raised e2 # Returned v # cs", folded m1_def]
    note b = cycle_retry[OF a(1-5), of e1 "Raised e2 # Returned v # cs" s1 t1, simplified, folded m2_def]
      cycle_frame[OF a(1-5), of s1 t1, folded m2_def]
    have p2: "0 < max_concurrent_tasks m2" "0 < semaphore m2" using a b by simp_all
    note c = cycle_retry[OF b(1) b(5,6) p2, of e2 "Returned v # cs" s2 t2, simplified, folded m3_def]
      cycle_frame[OF b(1) b(5,6) p2, of s2 t2, folded m3_def]
    have p3: "0 < max_concurrent_tasks m3" "0 < semaphore m3" using c p2 by simp_all
    note d = cycle_success[OF c(1) c(5,6) p3, of v cs s3 t3, simplified, folded m4_def]
      cycle_frame[OF c(1) c(5,6) p3, of s3 t3, folded m4_def]
    have "map_of (task_results m4) tid = Some (completed_result tid v s3 t3)"
      using d by (simp add: update_conv')
    moreover have "attempts m4 tid = attempts m tid + 3"
      using a b c d by (simp add: attempts_def failed_result_def completed_result_def)
    moreover have "idle m4" using d by (simp add: idle_def)
    ultimately show "let m1 = snd (submit_task m tid now (Raised e1 # Raised e2 # Returned v # cs) p t_o 2 rd cb);
              m' = run_serial [(s1, t1), (s2, t2), (s3, t3)] m1
          in map_of (task_results m') tid = Some (completed_result tid v s3 t3)
           \<and> attempts m' tid = attempts m tid + 3 \<and> run_serial ts m' = m'"
      by (simp add: m1_def m2_def m3_def m4_def run_serial_idle)
  }
  {
    assume fs: "\<forall>out\<in>set fs. \<exists>e. out = Raised e"
    from await_all_raised[OF fs] obtain e1 r1 where
      w1: "await_coro fs = (Raised e1, r1)" and f1: "\<forall>out\<in>set r1. \<exists>e. out = Raised e" by blast
    from await_all_raised[OF f1] obtain e2 r2 where
      w2: "await_coro r1 = (Raised e2, r2)" and f2: "\<forall>out\<in>set r2. \<exists>e. out = Raised e" by blast
    from await_all_raised[OF f2] obtain e3 r3 where
      w3: "await_coro r2 = (Raised e3, r3)" by blast
    define m1 where "m1 = snd (submit_task m tid now fs p t_o 2 rd cb)"
    define m2 where "m2 = serial_cycle (s1, t1) m1"
    define m3 where "m3 = serial_cycle (s2, t2) m2"
    define m4 where "m4 = serial_cycle (s3, t3) m3"
    note a = sub[of fs, folded m1_def]
    note b = cycle_retry[OF a(1-5), of e1 r1 s1 t1, simplified, OF w1, folded m2_def]
      cycle_frame[OF a(1-5), of s1 t1, folded m2_def]
    have p2: "0 < max_concurrent_tasks m2" "0 < semaphore m2" using a b by simp_all
    note c = cycle_retry[OF b(1) b(5,6) p2, of e2 r2 s2 t2, simplified, OF w2, folded m3_def]
      cycle_frame[OF b(1) b(5,6) p2, of s2 t2, folded m3_def]
    have p3: "0 < max_concurrent_tasks m3" "0 < semaphore m3" using c p2 by simp_all
    note d = cycle_fail[OF c(1) c(5,6) p3, of e3 r3 s3 t3, simplified, OF w3, folded m4_def]
      cycle_frame[OF c(1) c(5,6) p3, of s3 t3, folded m4_def]
    have "map_of (task_results m4) tid = Some (failed_result tid e3 s3 t3)"
      using d by (simp add: update_conv')
    moreover have "attempts m4 tid = attempts m tid + 3"
      using a b c d by (simp add: attempts_def failed_result_def)
    moreover have "idle m4" using d by (simp add: idle_def)
    ultimately show "let m1 = snd (submit_task m tid now fs p t_o 2 rd cb);
               m' = run_serial [(s1, t1), (s2, t2), (s3, t3)] m1
           in (\<exists>e. map_of (task_results m') tid = Some (failed_result tid e s3 t3))
            \<and> attempts m' tid = attempts m tid + 3 \<and> run_serial ts m' = m'"
      by (auto simp add: m1_def m2_def m3_def m4_def run_serial_idle)
  }
qed

section \<open>Submission at capacity\<close>

text \<open>
  C5. When the pending queue already holds \<open>max_queue_size\<close> tasks or more,
  \<open>submit_task\<close> raises \<^verbatim>\<open>RuntimeError("Task queue is full")\<close> and the manager after the
  call is the manager before it: queue, result store and every counter, \<open>total_tasks\<close>
  included.
\<close>

theorem submit_task_queue_full:
  "int (length (task_queue m)) \<ge> max_queue_size m \<Longrightarrow>
     submit_task m tid now c p t_o mr rd cb = (Inl (RuntimeError ''Task queue is full''), m)"
  by (simp add: submit_task_def)

theorem submit_task_queue_full_witness:
  "let m = snd (submit_task (projr (init 4 1 300)) 7 0 [Returned (Some (1::nat))] LOW None 0 1 None)
   in int (length (task_queue m)) \<ge> max_queue_size m \<and> total_tasks (metrics m) = 1 \<and>
      submit_task m 8 1 [Returned (Some 2)] HIGH None 0 1 None
        = (Inl (RuntimeError ''Task queue is full''), m)"
  using submit_task_queue_full
          [of "snd (submit_task (projr (init 4 1 300)) 7 0 [Returned (Some (1::nat))] LOW None 0 1 None)"
              8 1 "[Returned (Some 2)]" HIGH None 0 1 None]
  by (simp add: submit_task_def init_def Let_def sort_queue_def truthy_def)

section \<open>Retries of a queued task\<close>

text \<open>
  C1. A task is submitted with \<open>max_retries = 2\<close> to an idle manager with a free slot.
  If the first two awaits of its unit of work fail and the third returns \<open>v\<close>, then after
  three serial cycles the stored Result is COMPLETED with \<open>v\<close>, the wrapper has run exactly
  three times for the task, and further cycles change nothing. The serial cycles are one
  run of the worker and the wrappers; in every such run the wrapper runs at most three
  times for the task, and whenever the manager is idle again it has run exactly three
  times and the stored Result is COMPLETED with \<open>v\<close>. If every await of the unit of work
  fails, the same holds with a stored Result that is FAILED.
\<close>

theorem queue_retry_attempts:
  assumes "idle m" "0 < max_concurrent_tasks m" "0 < semaphore m" "0 < max_queue_size m"
  shows "(let m1 = snd (submit_task m tid now (Raised e1 # Raised e2 # Returned v # cs) p t_o 2 rd cb);
              m' = run_serial [(s1, t1), (s2, t2), (s3, t3)] m1
          in (map_of (task_results m') tid = Some (completed_result tid v s3 t3)
              \<and> attempts m' tid = attempts m tid + 3 \<and> run_serial ts m' = m')
           \<and> progress\<^sup>*\<^sup>* m1 m'
           \<and> (\<forall>m''. progress\<^sup>*\<^sup>* m1 m'' \<longrightarrow>
                  attempts m'' tid \<le> attempts m tid + 3
                  \<and> (idle m'' \<longrightarrow> attempts m'' tid = attempts m tid + 3
                       \<and> (\<exists>r. map_of (task_results m'') tid = Some r
                              \<and> status r = COMPLETED \<and> result r = v))))
       \<and> ((\<forall>out\<in>set fs. \<exists>e. out = Raised e) \<longrightarrow>
          (let m1 = snd (submit_task m tid now fs p t_o 2 rd cb);
               m' = run_serial [(s1, t1), (s2, t2), (s3, t3)] m1
           in ((\<exists>e. map_of (task_results m') tid = Some (failed_result tid e s3 t3))
               \<and> attempts m' tid = attempts m tid + 3 \<and> run_serial ts m' = m')
            \<and> progress\<^sup>*\<^sup>* m1 m'
            \<and> (\<forall>m''. progress\<^sup>*\<^sup>* m1 m'' \<longrightarrow>
                   attempts m'' tid \<le> attempts m tid + 3
                   \<and> (idle m'' \<longrightarrow> attempts m'' tid = attempts m tid + 3
                        \<and> (\<exists>r. map_of (task_results m'') tid = Some r
                               \<and> status r = FAILED)))))"
  unfolding Let_def
proof (intro conjI impI allI)
  note sr = retry_serial_run[OF assms, where tid = tid and now = now and ?e1.0 = e1
              and ?e2.0 = e2 and v = v and cs = cs and p = p and t_o = t_o and rd = rd
              and cb = cb and ?s1.0 = s1 and ?t1.0 = t1 and ?s2.0 = s2 and ?t2.0 = t2
              and ?s3.0 = s3 and ?t3.0 = t3 and ts = ts, unfolded Let_def, THEN conjunct1]
  show "map_of (task_results (run_serial [(s1, t1), (s2, t2), (s3, t3)]
          (snd (submit_task m tid now (Raised e1 # Raised e2 # Returned v # cs) p t_o 2 rd cb)))) tid
          = Some (completed_result tid v s3 t3)"
    using sr by (rule conjunct1)
  show "attempts (run_serial [(s1, t1), (s2, t2), (s3, t3)]
          (snd (submit_task m tid now (Raised e1 # Raised e2 # Returned v # cs) p t_o 2 rd cb))) tid
          = attempts m tid + 3"
    using sr[THEN conjunct2] by (rule conjunct1)
  show "run_serial ts (run_serial [(s1, t1), (s2, t2), (s3, t3)]
          (snd (submit_task m tid now (Raised e1 # Raised e2 # Returned v # cs) p t_o 2 rd cb)))
          = run_serial [(s1, t1), (s2, t2), (s3, t3)]
          (snd (submit_task m tid now (Raised e1 # Raised e2 # Returned v # cs) p t_o 2 rd cb))"
    using sr[THEN conjunct2] by (rule conjunct2)
  show "progress\<^sup>*\<^sup>*
          (snd (submit_task m tid now (Raised e1 # Raised e2 # Returned v # cs) p t_o 2 rd cb))
          (run_serial [(s1, t1), (s2, t2), (s3, t3)]
          (snd (submit_task m tid now (Raised e1 # Raised e2 # Returned v # cs) p t_o 2 rd cb)))"
    by (rule run_serial_progress)
next
  fix m''
  assume run: "progress\<^sup>*\<^sup>*
     (snd (submit_task m tid now (Raised e1 # Raised e2 # Returned v # cs) p t_o 2 rd cb)) m''"
  note r = retry_twice_then_return[OF assms run]
  show "attempts m'' tid \<le> attempts m tid + 3" using r by (rule conjunct1)
  {
    assume i: "idle m''"
    note ri = r[THEN conjunct2, THEN mp, OF i]
    show "attempts m'' tid = attempts m tid + 3" using ri by (rule conjunct1)
    show "\<exists>r. map_of (task_results m'') tid = Some r \<and> status r = COMPLETED \<and> result r = v"
      using ri by (rule conjunct2)
  }
next
  assume fs: "\<forall>out\<in>set fs. \<exists>e. out = Raised e"
  note sr = retry_serial_run[OF assms, where tid = tid and now = now and fs = fs
              and p = p and t_o = t_o and rd = rd
              and cb = cb and ?s1.0 = s1 and ?t1.0 = t1 and ?s2.0 = s2 and ?t2.0 = t2
              and ?s3.0 = s3 and ?t3.0 = t3 and ts = ts, unfolded Let_def, THEN conjunct2,
              THEN mp, OF fs]
  show "\<exists>e. map_of (task_results (run_serial [(s1, t1), (s2, t2), (s3, t3)]
          (snd (submit_task m tid now fs p t_o 2 rd cb)))) tid
          = Some (failed_result tid e s3 t3)"
    using sr by (rule conjunct1)
  show "attempts (run_serial [(s1, t1), (s2, t2), (s3, t3)]
          (snd (submit_task m tid now fs p t_o 2 rd cb))) tid
          = attempts m tid + 3"
    using sr[THEN conjunct2] by (rule conjunct1)
  show "run_serial ts (run_serial [(s1, t1), (s2, t2), (s3, t3)]
          (snd (submit_task m tid now fs p t_o 2 rd cb)))
          = run_serial [(s1, t1), (s2, t2), (s3, t3)]
          (snd (submit_task m tid now fs p t_o 2 rd cb))"
    using sr[THEN conjunct2] by (rule conjunct2)
  show "progress\<^sup>*\<^sup>*
          (snd (submit_task m tid now fs p t_o 2 rd cb))
          (run_serial [(s1, t1), (s2, t2), (s3, t3)]
          (snd (submit_task m tid now fs p t_o 2 rd cb)))"
    by (rule run_serial_progress)
  fix m''
  assume run: "progress\<^sup>*\<^sup>* (snd (submit_task m tid now fs p t_o 2 rd cb)) m''"
  note r = retry_always_raise[OF assms fs run]
  show "attempts m'' tid \<le> attempts m tid + 3" using r by (rule conjunct1)
  {
    assume i: "idle m''"
    note ri = r[THEN conjunct2, THEN mp, OF i]
    show "attempts m'' tid = attempts m tid + 3" using ri by (rule conjunct1)
    show "\<exists>r. map_of (task_results m'') tid = Some r \<and> status r = FAILED"
      using ri by (rule conjunct2)
  }
qed

theorem queue_retry_attempts_witness:
  "(let m1 = snd (submit_task example_manager 7 0
                    [Raised (UserError 1), Raised (UserError 2), Returned (Some 42)]
                    LOW None 2 1 None);
        m' = run_serial [(0, 1), (2, 3), (4, 5)] m1
    in (map_of (task_results m') 7 = Some (completed_result 7 (Some 42) 4 5)
        \<and> attempts m' 7 = attempts example_manager 7 + 3 \<and> run_serial [(6, 7)] m' = m')
     \<and> progress\<^sup>*\<^sup>* m1 m')
   \<and> (let m1 = snd (submit_task example_manager 7 0 [Raised (ValueError ''boom'')]
                       LOW None 2 1 None);
           m' = run_serial [(0, 1), (2, 3), (4, 5)] m1
       in ((\<exists>e. map_of (task_results m') 7 = Some (failed_result 7 e 4 5))
           \<and> attempts m' 7 = attempts example_manager 7 + 3 \<and> run_serial [(6, 7)] m' = m')
        \<and> progress\<^sup>*\<^sup>* m1 m')"
proof -
  have h: "idle example_manager" "0 < max_concurrent_tasks example_manager"
    "0 < semaphore example_manager" "0 < max_queue_size example_manager"
    by (simp_all add: example_manager_def init_def idle_def)
  have fs: "\<forall>out\<in>set [Raised (ValueError ''boom'')]. \<exists>e. out = Raised e"
    by simp
  note t = queue_retry_attempts
            [OF h, where tid = 7 and now = 0 and ?e1.0 = "UserError 1"
               and ?e2.0 = "UserError 2"
               and v = "Some 42" and cs = "[]" and p = LOW and t_o = None and rd = 1
               and cb = None and ?s1.0 = 0 and ?t1.0 = 1 and ?s2.0 = 2 and ?t2.0 = 3
               and ?s3.0 = 4 and ?t3.0 = 5 and ts = "[(6, 7)]"
               and fs = "[Raised (ValueError ''boom'')]", unfolded Let_def]
  note a = t[THEN conjunct1]
  note b = t[THEN conjunct2, THEN mp, OF fs]
  show ?thesis
    unfolding Let_def
  proof (intro conjI)
    show "map_of (task_results (run_serial [(0, 1), (2, 3), (4, 5)]
            (snd (submit_task example_manager 7 0
                    [Raised (UserError 1), Raised (UserError 2), Returned (Some 42)]
                    LOW None 2 1 None)))) 7 = Some (completed_result 7 (Some 42) 4 5)"
      using a[THEN conjunct1] by (rule conjunct1)
  qed (use a b in blast)+
qed

section \<open>The concurrency limit\<close>

text \<open>
  C3. In every state a manager built with limit \<open>n\<close> can reach, whatever the number of
  tasks submitted, the running set holds at most \<open>n\<close> tasks; moreover the free slots of
  the semaphore and the tasks of the running set always add up to \<open>n\<close>: a task enters the
  set with the slot it acquires and leaves it when its wrapper releases the slot.
\<close>

theorem running_set_bounded:
  "reachable n q d m \<Longrightarrow>
     int (length (running_tasks m)) \<le> n
     \<and> int (semaphore m) + int (length (running_tasks m)) = n
     \<and> max_concurrent_tasks m = n"
  using reachable_slots_inv[of n q d m] by (simp add: slots_inv_def running_ids_def)

theorem running_set_bounded_witness:
  "reachable 1 10 300 example_busy
   \<and> map fst (running_tasks example_busy) = [11] \<and> map qtask_id (task_queue example_busy) = [10]
   \<and> int (length (running_tasks example_busy)) \<le> 1
   \<and> int (semaphore example_busy) + int (length (running_tasks example_busy)) = 1
   \<and> max_concurrent_tasks example_busy = 1"
proof -
  let ?m0 = "example_single"
  let ?m1 = "snd (submit_task ?m0 10 0 [Returned None] LOW None 0 1 None)"
  let ?m2 = "snd (submit_task ?m1 11 0 [Returned None] HIGH None 0 1 None)"
  have i: "init 1 10 300 = Inr ?m0" by (simp add: example_single_def init_def)
  have f0: "task_queue ?m0 = []" "running_tasks ?m0 = []" "worker_task ?m0 = None"
    "task_results ?m0 = []" "max_queue_size ?m0 = 10" "max_concurrent_tasks ?m0 = 1"
    "semaphore ?m0 = 1"
    by (simp_all add: example_single_def init_def)
  have q1: "task_queue ?m1 = [new_task ?m0 10 0 [Returned None] LOW None 0 1 None]"
    by (simp add: submit_queue f0)
  have q2: "map qtask_id (task_queue ?m2) = [11, 10]"
    by (simp add: submit_queue submit_frame f0 q1 sort_queue_def)
  have r0: "reachable 1 10 300 ?m0" using i by (rule reachable.initial)
  have "10 \<notin> known_ids ?m0" by (simp add: known_ids_def f0)
  then have r1: "reachable 1 10 300 ?m1" by (intro reachable.after[OF r0] step.submit)
  have "11 \<notin> known_ids ?m1" by (simp add: known_ids_def submit_frame f0 q1)
  then have r2: "reachable 1 10 300 ?m2" by (intro reachable.after[OF r1] step.submit)
  have r3: "reachable 1 10 300 example_busy"
    unfolding example_busy_def by (intro reachable.after[OF r2] step.worker)
  obtain qt rest where q: "task_queue ?m2 = qt # rest" "qtask_id qt = 11" "map qtask_id rest = [10]"
    using q2 by (cases "task_queue ?m2") auto
  have e: "example_busy = start_task (?m2\<lparr> task_queue := rest \<rparr>) qt"
    by (simp add: example_busy_def queue_worker_def process_queue_def submit_frame f0 q)
  have "map fst (running_tasks example_busy) = [11]" "map qtask_id (task_queue example_busy) = [10]"
    by (simp_all add: e start_task_def submit_frame f0 q)
  then show ?thesis using r3 running_set_bounded[OF r3] by simp
qed

section \<open>Priority order\<close>



section \<open>The retry policy of the wrapper\<close>

text \<open>
  C6. The unit of work of a task raises an exception \<open>e\<close> (a timeout of
  \<^verbatim>\<open>asyncio.wait_for\<close> is one). If \<open>retry_count < max_retries\<close> and the retry sleep is not
  cancelled, the wrapper sleeps \<open>retry_delay\<close> and puts the same record, its
  \<open>retry_count\<close> one higher, at index 0 of the pending queue, in front of every entry
  whatever its priority; no failure is counted and \<^verbatim>\<open>task_failed\<close> is not notified.
  Otherwise the queue is left alone, the stored Result is FAILED with \<open>e\<close>, the failure is
  counted and \<^verbatim>\<open>task_failed\<close> is notified with that Result.
\<close>

theorem execute_queued_task_retry_policy:
  assumes "c \<noteq> CancelledAtWork" and "await_coro (coro qt) = (Raised e, rest)"
  shows "let m' = execute_queued_task m qt s t c;
             r0 = \<lparr> task_id = qtask_id qt, status = RUNNING, result = None, error = None,
                    start_time = Some s, end_time = None, execution_time = None \<rparr>;
             rF = r0\<lparr> status := FAILED, error := Some e, end_time := Some t,
                      execution_time := Some (t - s) \<rparr>
         in (retry_count qt < max_retries qt \<and> c = NotCancelled \<longrightarrow>
               task_queue m' = qt\<lparr> coro := rest, retry_count := retry_count qt + 1 \<rparr> # task_queue m
               \<and> retry_sleeps m' = retry_sleeps m @ [(qtask_id qt, retry_delay qt)]
               \<and> failed_tasks (metrics m') = failed_tasks (metrics m)
               \<and> notified m' = notified m @ [(''task_started'', r0)])
          \<and> (\<not> retry_count qt < max_retries qt \<longrightarrow>
               task_queue m' = task_queue m
               \<and> retry_sleeps m' = retry_sleeps m
               \<and> map_of (task_results m') (qtask_id qt) = Some rF
               \<and> failed_tasks (metrics m') = failed_tasks (metrics m) + 1
               \<and> notified m' = notified m @ [(''task_started'', r0), (''task_failed'', rF)])"
  using assms
  by (simp add: execute_queued_task_def await_work_def Let_def on_exception_def finalize_def
        notify_callbacks_def update_conv' split: option.splits)

theorem execute_queued_task_retry_policy_witness:
  "task_queue (execute_queued_task example_manager example_task 0 1 NotCancelled)
     = [example_task\<lparr> coro := [Returned (Some 1)], retry_count := 1 \<rparr>]
   \<and> map fst (notified (execute_queued_task example_manager
                          (example_task\<lparr> retry_count := 1 \<rparr>) 0 1 NotCancelled))
     = [''task_started'', ''task_failed'']"
  using execute_queued_task_retry_policy
          [of NotCancelled example_task "TimeoutError ''wait_for''" "[Returned (Some 1)]"
              example_manager 0 1]
        execute_queued_task_retry_policy
          [of NotCancelled "example_task\<lparr> retry_count := 1 \<rparr>" "TimeoutError ''wait_for''"
              "[Returned (Some 1)]" example_manager 0 1]
  by (simp add: example_task_def example_manager_def init_def Let_def)

section \<open>The running average\<close>

text \<open>
  C9. When the unit of work of a task returns, the wrapper first increments
  \<open>completed_tasks\<close> and then updates the average: with \<open>n\<close> the count after the
  increment and \<open>t - s\<close> the execution time of the task, the new average is
  \<open>(old_average * (n - 1) + (t - s)) / n\<close> (in real arithmetic).
\<close>

theorem average_execution_time_update:
  assumes "c \<noteq> CancelledAtWork" and "await_coro (coro qt) = (Returned v, rest)"
  shows "let m' = execute_queued_task m qt s t c; n = completed_tasks (metrics m')
         in n = completed_tasks (metrics m) + 1 \<and>
            average_execution_time (metrics m')
              = (average_execution_time (metrics m) * (real n - 1) + (t - s)) / real n"
  using assms
  by (simp add: execute_queued_task_def await_work_def Let_def update_average_execution_time_def
        finalize_def notify_callbacks_def split: option.splits)

theorem average_execution_time_update_witness:
  "let m1 = execute_queued_task example_manager (example_task\<lparr> coro := [Returned (Some 1)] \<rparr>)
              10 14 NotCancelled;
       m2 = execute_queued_task m1 (example_task\<lparr> coro := [Returned (Some 2)] \<rparr>)
              20 22 NotCancelled
   in completed_tasks (metrics m1) = 1 \<and> average_execution_time (metrics m1) = 4
    \<and> completed_tasks (metrics m2) = 2 \<and> average_execution_time (metrics m2) = 3"
  using average_execution_time_update
          [of NotCancelled "example_task\<lparr> coro := [Returned (Some 1)] \<rparr>" "Some 1" "[]"
              example_manager 10 14]
        average_execution_time_update
          [of NotCancelled "example_task\<lparr> coro := [Returned (Some 2)] \<rparr>" "Some 2" "[]"
              "execute_queued_task example_manager (example_task\<lparr> coro := [Returned (Some 1)] \<rparr>)
                 10 14 NotCancelled" 20 22]
  by (simp add: example_task_def example_manager_def init_def Let_def)

section \<open>The verdict of \<open>execute_task\<close>\<close>

text \<open>
  C10. \<open>execute_task\<close> raises the error of a FAILED Result only when that error is true
  in a Boolean context: the source tests \<^verbatim>\<open>result.error\<close>, not
  \<^verbatim>\<open>result.error is not None\<close>. A task whose unit of work raises an exception object
  that is false in a Boolean context is executed and fails: the failure is counted,
  \<^verbatim>\<open>task_failed\<close> is notified and a FAILED Result that carries the exception is stored.
  Yet \<open>execute_task\<close> returns \<^verbatim>\<open>None\<close> to its caller without raising. The same call with
  an ordinary exception object raises it.
\<close>

theorem execute_task_swallows_falsy_error:
  "(let run = execute_task 2 example_env example_world [Raised (FalsyError 0)] MEDIUM None
    in map_option fst run = Some (Inr None)
     \<and> map_option (\<lambda>x. map_of (task_results (mgr (snd x))) 100) run
         = Some (Some (failed_result 100 (FalsyError 0) 0 1))
     \<and> map_option (\<lambda>x. failed_tasks (metrics (mgr (snd x)))) run = Some 1
     \<and> map_option (\<lambda>x. map fst (notified (mgr (snd x)))) run
         = Some [''task_started'', ''task_failed''])
   \<and> map_option fst (execute_task 2 example_env example_world [Raised (UserError 0)] MEDIUM None)
       = Some (Inl (UserError 0))"
  by (simp add: caller_defs numeral_2_eq_2 failed_result_def)

section \<open>Retry with backoff\<close>

text \<open>
  C8. \<open>execute_with_retry\<close> with a negative \<open>max_retries\<close> makes no attempt and raises
  a \<^verbatim>\<open>TypeError\<close>. With \<open>max_retries \<ge> 0\<close>, when every attempt that is made ends, the
  call ends with the outcome of an attempt \<open>n \<le> max_retries\<close> of the specification,
  in the world that attempt leaves: the attempts before it raised, each awaited a unit
  of work of its own from the factory, and between attempt \<open>k\<close> and attempt \<open>k + 1\<close>
  the caller slept \<open>retry_delay * backoff_multiplier ^ k\<close>. The factory was called and
  \<open>submit_task\<close> was reached \<open>n + 1\<close> times, and the durations passed to
  \<^verbatim>\<open>asyncio.sleep\<close> are the polls of the attempts with those delays in between. The
  call raises only when \<open>n = max_retries\<close>, that is after \<open>max_retries + 1\<close> failed
  attempts, and then it raises the error of the last one.
\<close>

theorem execute_with_retry_backoff:
  "(mr < 0 \<longrightarrow>
      execute_with_retry fuel E w factory mr rd b t_o
        = Some (Inl (TypeError ''exceptions must derive from BaseException''), w))
   \<and> (0 \<le> mr \<and> (\<forall>k \<le> nat mr. (\<forall>i<k. spec_attempt_fails fuel E factory rd b t_o w i)
                      \<longrightarrow> spec_attempt fuel E factory rd b t_o w k \<noteq> None) \<longrightarrow>
       (\<exists>n res w' ps. n \<le> nat mr
          \<and> execute_with_retry fuel E w factory mr rd b t_o = Some (res, w')
          \<and> spec_attempt fuel E factory rd b t_o w n = Some (res, w')
          \<and> ((\<exists>e. res = Inl e) \<longrightarrow> n = nat mr)
          \<and> made w' = made w + Suc n \<and> drawn w' = drawn w + Suc n
          \<and> slept w' = slept w @ sleep_log ps rd b n))"
proof (intro conjI impI)
  assume "mr < 0"
  then have "[0..mr] = []" by simp
  then show "execute_with_retry fuel E w factory mr rd b t_o
        = Some (Inl (TypeError ''exceptions must derive from BaseException''), w)"
    by (simp add: execute_with_retry_def)
next
  assume a: "0 \<le> mr \<and> (\<forall>k \<le> nat mr. (\<forall>i<k. spec_attempt_fails fuel E factory rd b t_o w i)
                      \<longrightarrow> spec_attempt fuel E factory rd b t_o w k \<noteq> None)"
  then obtain M where M: "mr = int M" by (metis nat_0_le)
  have ends: "\<forall>k \<le> M. (\<forall>i<k. spec_attempt_fails fuel E factory rd b t_o w i)
                      \<longrightarrow> spec_attempt fuel E factory rd b t_o w k \<noteq> None"
    using a by (simp add: M)
  from retry_loop_attempts[OF ends, of 0 w rd None]
  obtain n res w' where r: "n \<le> M"
    "retry_loop fuel E factory (int M) b t_o [int 0..int M] None rd w = Some (res, w')"
    "spec_attempt fuel E factory rd b t_o w n = Some (res, w')" "(\<exists>e. res = Inl e) \<longrightarrow> n = M"
    by auto
  from spec_attempt_caller[OF r(3)] obtain ps where
    c: "made w' = made w + Suc n" "drawn w' = drawn w + Suc n"
       "slept w' = slept w @ sleep_log ps rd b n" by blast
  have "execute_with_retry fuel E w factory mr rd b t_o = Some (res, w')"
    using r(2) by (simp add: execute_with_retry_def M)
  then show "\<exists>n res w' ps. n \<le> nat mr
          \<and> execute_with_retry fuel E w factory mr rd b t_o = Some (res, w')
          \<and> spec_attempt fuel E factory rd b t_o w n = Some (res, w')
          \<and> ((\<exists>e. res = Inl e) \<longrightarrow> n = nat mr)
          \<and> made w' = made w + Suc n \<and> drawn w' = drawn w + Suc n
          \<and> slept w' = slept w @ sleep_log ps rd b n"
    using r(1,3,4) c unfolding M by (intro exI[of _ n] exI[of _ res] exI[of _ w'] exI[of _ ps]) simp
qed

theorem execute_with_retry_backoff_witness:
  "(\<exists>n res w' ps. n \<le> nat 2
      \<and> execute_with_retry 2 example_env example_world example_factory 2 1 2 None = Some (res, w')
      \<and> spec_attempt 2 example_env example_factory 1 2 None example_world n = Some (res, w')
      \<and> made w' = made example_world + Suc n \<and> drawn w' = drawn example_world + Suc n
      \<and> slept w' = slept example_world @ sleep_log ps 1 2 n)
   \<and> (let run = execute_with_retry 2 example_env example_world example_factory 2 1 2 None
      in map_option fst run = Some (Inr (Some 7))
       \<and> map_option (\<lambda>x. slept (snd x)) run = Some [1 / 10, 1, 1 / 10, 2, 1 / 10]
       \<and> map_option (\<lambda>x. made (snd x)) run = Some 3
       \<and> map_option (\<lambda>x. map (\<lambda>k. map_option status (map_of (task_results (mgr (snd x))) k))
                            [100, 101, 102]) run
           = Some [Some FAILED, Some FAILED, Some COMPLETED])
   \<and> (let run = execute_with_retry 2 example_env example_world example_failing_factory 2 1 2 None
      in map_option fst run = Some (Inl (UserError 2))
       \<and> map_option (\<lambda>x. slept (snd x)) run = Some [1 / 10, 1, 1 / 10, 2, 1 / 10]
       \<and> map_option (\<lambda>x. made (snd x)) run = Some 3)
   \<and> execute_with_retry 2 example_env example_world example_factory (- 1) 1 2 None
       = Some (Inl (TypeError ''exceptions must derive from BaseException''), example_world)"
proof -
  have l: "[0..2::int] = [0, 1, 2]" by (simp add: upto_rec1)
  have neg: "(- 1 :: int) < 0" by simp
  note none = execute_with_retry_backoff[where mr = "- 1" and fuel = 2 and E = example_env
             and w = example_world and factory = example_factory and rd = 1 and b = 2
             and t_o = None, THEN conjunct1, THEN mp, OF neg]
  have n2: "(2::nat) = Suc (Suc 0)" by simp
  have a0: "spec_attempt 2 example_env example_factory 1 2 None example_world 0 \<noteq> None"
    by (simp add: retry_defs n2)
  have a1: "spec_attempt 2 example_env example_factory 1 2 None example_world (Suc 0) \<noteq> None"
    by (simp add: retry_defs n2)
  have a2: "spec_attempt 2 example_env example_factory 1 2 None example_world (Suc (Suc 0)) \<noteq> None"
    by (simp add: retry_defs n2)
  have ends: "0 \<le> (2::int) \<and> (\<forall>k \<le> nat 2.
       (\<forall>i<k. spec_attempt_fails 2 example_env example_factory 1 2 None example_world i)
         \<longrightarrow> spec_attempt 2 example_env example_factory 1 2 None example_world k \<noteq> None)"
  proof (intro conjI allI impI)
    fix k :: nat assume "k \<le> nat 2"
    then have "k = 0 \<or> k = Suc 0 \<or> k = Suc (Suc 0)" by arith
    then show "spec_attempt 2 example_env example_factory 1 2 None example_world k \<noteq> None"
      using a0 a1 a2 by blast
  qed simp
  note t = execute_with_retry_backoff[where mr = 2 and fuel = 2 and E = example_env
             and w = example_world and factory = example_factory and rd = 1 and b = 2
             and t_o = None, THEN conjunct2, THEN mp, OF ends]
  have e1: "let run = execute_with_retry 2 example_env example_world example_factory 2 1 2 None
      in map_option fst run = Some (Inr (Some 7))
       \<and> map_option (\<lambda>x. slept (snd x)) run = Some [1 / 10, 1, 1 / 10, 2, 1 / 10]
       \<and> map_option (\<lambda>x. made (snd x)) run = Some 3
       \<and> map_option (\<lambda>x. map (\<lambda>k. map_option status (map_of (task_results (mgr (snd x))) k))
                            [100, 101, 102]) run
           = Some [Some FAILED, Some FAILED, Some COMPLETED]"
    by (simp add: retry_defs l n2)
  have e2: "let run = execute_with_retry 2 example_env example_world example_failing_factory 2 1 2 None
      in map_option fst run = Some (Inl (UserError 2))
       \<and> map_option (\<lambda>x. slept (snd x)) run = Some [1 / 10, 1, 1 / 10, 2, 1 / 10]
       \<and> map_option (\<lambda>x. made (snd x)) run = Some 3"
    by (simp add: retry_defs l n2)
  from t obtain n res w' ps where "n \<le> nat 2"
      "execute_with_retry 2 example_env example_world example_factory 2 1 2 None = Some (res, w')"
      "spec_attempt 2 example_env example_factory 1 2 None example_world n = Some (res, w')"
      "made w' = made example_world + Suc n" "drawn w' = drawn example_world + Suc n"
      "slept w' = slept example_world @ sleep_log ps 1 2 n"
    by blast
  then have "\<exists>n res w' ps. n \<le> nat 2
      \<and> execute_with_retry 2 example_env example_world example_factory 2 1 2 None = Some (res, w')
      \<and> spec_attempt 2 example_env example_factory 1 2 None example_world n = Some (res, w')
      \<and> made w' = made example_world + Suc n \<and> drawn w' = drawn example_world + Suc n
      \<and> slept w' = slept example_world @ sleep_log ps 1 2 n"
    by blast
  then show ?thesis using e1 e2 none by (intro conjI)
qed

section \<open>Failure policies of a group\<close>





section \<open>What waiters see of a retried task\<close>

text \<open>
  C2. The result store holds at most one Result per identifier, and every stored status is
  terminal. But the \<^verbatim>\<open>finally\<close> block stores the FAILED Result of an attempt that is
  re-queued for retry. A task with one retry allowed, whose unit of work raises: after the
  first attempt it is pending again with \<open>retry_count = 1\<close> and no failure is counted, yet
  the store already holds a FAILED Result for it, which \<open>wait_for_task\<close> returns at once.
  That entry is replaced later: by the FAILED Result of the second attempt (a coroutine
  object cannot be awaited twice), by a CANCELLED Result when the pending retry is
  cancelled, or by a COMPLETED Result when the second await of the unit of work returns.
\<close>

theorem retry_publishes_intermediate_result:
  "(let m1 = snd (submit_task example_manager 7 0 [Raised (ValueError ''boom'')] LOW None 1 1 None);
        m2 = serial_cycle (0, 1) m1;
        m3 = serial_cycle (2, 3) m2;
        m3c = snd (cancel_task m2 7)
    in map qtask_id (task_queue m2) = [7] \<and> map retry_count (task_queue m2) = [1]
     \<and> failed_tasks (metrics m2) = 0
     \<and> map_of (task_results m2) 7 = Some (failed_result 7 (ValueError ''boom'') 0 1)
     \<and> fst (the (wait_for_task 1 example_env 7 None
                     \<lparr> mgr = m2, tick = 1, drawn = 1, made = 0, slept = [] \<rparr>))
         = Inr (failed_result 7 (ValueError ''boom'') 0 1)
     \<and> map_of (task_results m3) 7
         = Some (failed_result 7 (RuntimeError ''cannot reuse already awaited coroutine'') 2 3)
     \<and> map_of (task_results m3c) 7 = Some (cancelled_result 7))
   \<and> (let m1 = snd (submit_task example_manager 7 0
                       [Raised (ValueError ''boom''), Returned (Some 42)] LOW None 1 1 None);
           m2 = serial_cycle (0, 1) m1;
           m3 = serial_cycle (2, 3) m2
       in map_of (task_results m2) 7 = Some (failed_result 7 (ValueError ''boom'') 0 1)
        \<and> map_of (task_results m3) 7 = Some (completed_result 7 (Some 42) 2 3))"
  by (simp add: run_defs example_manager_def failed_result_def completed_result_def del_queued.simps)

end
